theory Spec2Isabelle
  imports Main "HOL-Library.AList"
begin

section \<open>JavaScript values of the archive component\<close>

text \<open>
  The component (\<^verbatim>\<open>src/unnamed/part_000\<close>, the \<^verbatim>\<open>archive.vue\<close> script) keeps a query
  object whose values are numbers, strings, or arrays of those. Numbers are the page
  numbers and term ids of the WordPress REST API, so they are modelled as integers
  (\<^typ>\<open>int\<close>); fractional numbers, \<^verbatim>\<open>NaN\<close> and the infinities are outside the model.
  An object is an association list in insertion order (the order \<^verbatim>\<open>Object.keys\<close>
  enumerates for keys that are not array indices).
\<close>

datatype scalar = Num int | Str string

datatype jsval = Scalar scalar | Arr "scalar list"

type_synonym obj = "(string \<times> jsval) list"

subsection \<open>Numbers as text\<close>

definition digit_char :: "nat \<Rightarrow> char" where
  "digit_char d = char_of (48 + d)"

fun show_nat :: "nat \<Rightarrow> string" where
  "show_nat n = (if n < 10 then [digit_char n] else show_nat (n div 10) @ [digit_char (n mod 10)])"

declare show_nat.simps [simp del]

definition show_int :: "int \<Rightarrow> string" where
  "show_int i = (if i < 0 then CHR ''-'' # show_nat (nat (- i)) else show_nat (nat i))"

text \<open>The template literal \<^verbatim>\<open>`${a}`\<close>: a number prints in decimal, a string is itself.\<close>

fun to_string :: "scalar \<Rightarrow> string" where
  "to_string (Num n) = show_int n"
| "to_string (Str s) = s"

text \<open>\<^verbatim>\<open>Array.prototype.join(sep)\<close> on an array of strings.\<close>

fun join :: "string \<Rightarrow> string list \<Rightarrow> string" where
  "join sep [] = []"
| "join sep [x] = x"
| "join sep (x # y # ys) = x @ sep @ join sep (y # ys)"

section \<open>Query codec: \<^verbatim>\<open>buildUrlQuery\<close>\<close>

text \<open>
  \<^verbatim>\<open>
  buildUrlQuery: function(query, omit = false, rev = false) {
    let q = Object.keys(query)
      .map(k => {
        if (omit && omit.includes(k)) return false;
        let map = (rev && rev.hasOwnProperty(k)) ? rev[k] : k;
        if (Array.isArray(query[k]))
          return query[k].map(a => `${map}[]=${a}`).join('&');
        return `${map}=${query[k]}`;
      }).filter(k => (k)).join('&');
    return (q !== '') ? '?' + q : '';
  }
  \<close>
  The parameters \<^verbatim>\<open>omit\<close> and \<^verbatim>\<open>rev\<close> default to \<^verbatim>\<open>false\<close>, which is \<open>None\<close> here
  (\<^verbatim>\<open>rev\<close> is called \<open>rmap\<close>).
  The callback returns \<^verbatim>\<open>false\<close> (\<open>None\<close>) or a string; \<^verbatim>\<open>filter(k => (k))\<close> drops
  \<^verbatim>\<open>false\<close> and the empty string.
\<close>

definition omitted :: "string list option \<Rightarrow> string \<Rightarrow> bool" where
  "omitted omit k = (case omit of None \<Rightarrow> False | Some os \<Rightarrow> k \<in> set os)"

definition renamed :: "(string \<times> string) list option \<Rightarrow> string \<Rightarrow> string" where
  "renamed rmap k =
     (case rmap of None \<Rightarrow> k
      | Some r \<Rightarrow> (case map_of r k of Some k' \<Rightarrow> k' | None \<Rightarrow> k))"

definition url_entry ::
  "string list option \<Rightarrow> (string \<times> string) list option \<Rightarrow> string \<times> jsval \<Rightarrow> string option" where
  "url_entry omit rmap kv =
     (if omitted omit (fst kv) then None
      else let m = renamed rmap (fst kv) in
        (case snd kv of
           Arr xs \<Rightarrow> Some (join ''&'' (map (\<lambda>a. m @ ''[]='' @ to_string a) xs))
         | Scalar a \<Rightarrow> Some (m @ ''='' @ to_string a)))"

fun truthy :: "string option list \<Rightarrow> string list" where
  "truthy [] = []"
| "truthy (None # rs) = truthy rs"
| "truthy (Some s # rs) = (if s = [] then truthy rs else s # truthy rs)"

definition buildUrlQuery ::
  "obj \<Rightarrow> string list option \<Rightarrow> (string \<times> string) list option \<Rightarrow> string" where
  "buildUrlQuery query omit rmap =
     (let q = join ''&'' (truthy (map (url_entry omit rmap) query))
      in if q \<noteq> [] then ''?'' @ q else [])"

subsection \<open>Text as numbers\<close>

text \<open>
  \<^verbatim>\<open>isNaN(value)\<close> and \<^verbatim>\<open>+value\<close> on a string, for the numbers of the model: the empty
  string converts to 0 and an optionally signed run of decimal digits to its value; every
  other string is \<^verbatim>\<open>NaN\<close> (\<open>None\<close>). JavaScript also converts strings with surrounding
  white space, a fraction, an exponent, a radix prefix, and \<^verbatim>\<open>Infinity\<close>: those denote
  numbers outside the model, and no theorem below evaluates \<open>to_number\<close> on one.
\<close>

definition is_digit :: "char \<Rightarrow> bool" where
  "is_digit c = (48 \<le> (of_char c :: nat) \<and> (of_char c :: nat) \<le> 57)"

definition digits_value :: "string \<Rightarrow> nat" where
  "digits_value ds = foldl (\<lambda>a c. 10 * a + (of_char c - 48)) 0 ds"

definition to_number :: "string \<Rightarrow> int option" where
  "to_number s =
     (case s of
        [] \<Rightarrow> Some 0
      | c # ds \<Rightarrow>
          if c = CHR ''-'' \<and> ds \<noteq> [] \<and> list_all is_digit ds then Some (- int (digits_value ds))
          else if c = CHR ''+'' \<and> ds \<noteq> [] \<and> list_all is_digit ds then Some (int (digits_value ds))
          else if list_all is_digit s then Some (int (digits_value s))
          else None)"

section \<open>Query codec: \<^verbatim>\<open>buildJsonQuery\<close>\<close>

text \<open>
  \<^verbatim>\<open>new URLSearchParams(query)\<close> on a string, as the URL standard parses it: one leading
  \<^verbatim>\<open>?\<close> is removed, the rest is split at every \<^verbatim>\<open>&\<close>, empty parts are skipped, each part
  is split at its first \<^verbatim>\<open>=\<close> into name and value (no \<^verbatim>\<open>=\<close>: the value is empty), and in
  both every \<^verbatim>\<open>+\<close> becomes a space and every \<^verbatim>\<open>%\<close> followed by two hexadecimal digits
  becomes that byte. Strings are byte strings here; the replacement of bytes that are not
  UTF-8 is not modelled.
\<close>

fun split_on :: "char \<Rightarrow> string \<Rightarrow> string list" where
  "split_on c [] = [[]]"
| "split_on c (x # xs) =
     (if x = c then [] # split_on c xs
      else (case split_on c xs of [] \<Rightarrow> [[x]] | y # ys \<Rightarrow> (x # y) # ys))"

definition split_pair :: "string \<Rightarrow> string \<times> string" where
  "split_pair b =
     (takeWhile (\<lambda>c. c \<noteq> CHR ''='') b, drop 1 (dropWhile (\<lambda>c. c \<noteq> CHR ''='') b))"

definition hex_value :: "char \<Rightarrow> nat option" where
  "hex_value c =
     (let n = (of_char c :: nat) in
      if 48 \<le> n \<and> n \<le> 57 then Some (n - 48)
      else if 65 \<le> n \<and> n \<le> 70 then Some (n - 55)
      else if 97 \<le> n \<and> n \<le> 102 then Some (n - 87)
      else None)"

fun percent_decode :: "string \<Rightarrow> string" where
  "percent_decode (c # h1 # h2 # cs) =
     (case (hex_value h1, hex_value h2) of
        (Some a, Some b) \<Rightarrow>
          if c = CHR ''%'' then char_of (16 * a + b) # percent_decode cs
          else c # percent_decode (h1 # h2 # cs)
      | _ \<Rightarrow> c # percent_decode (h1 # h2 # cs))"
| "percent_decode cs = cs"

definition url_decode :: "string \<Rightarrow> string" where
  "url_decode b = percent_decode (map (\<lambda>c. if c = CHR ''+'' then CHR '' '' else c) b)"

definition URLSearchParams :: "string \<Rightarrow> (string \<times> string) list" where
  "URLSearchParams str =
     (let input = (case str of [] \<Rightarrow> [] | c # cs \<Rightarrow> if c = CHR ''?'' then cs else str)
      in map (\<lambda>b. (url_decode (fst (split_pair b)), url_decode (snd (split_pair b))))
           (filter (\<lambda>b. b \<noteq> []) (split_on CHR ''&'' input)))"

text \<open>\<^verbatim>\<open>key.replace('[]', '')\<close>: the first occurrence is removed.\<close>

fun strip_brackets :: "string \<Rightarrow> string" where
  "strip_brackets (a # b # cs) =
     (if a = CHR ''['' \<and> b = CHR '']'' then cs else a # strip_brackets (b # cs))"
| "strip_brackets cs = cs"

text \<open>\<^verbatim>\<open>params.getAll(key)\<close> and \<^verbatim>\<open>(isNaN(value)) ? value : +value\<close>.\<close>

definition getAll :: "(string \<times> string) list \<Rightarrow> string \<Rightarrow> string list" where
  "getAll ps key = map snd (filter (\<lambda>p. fst p = key) ps)"

definition convert :: "string \<Rightarrow> scalar" where
  "convert v = (case to_number v of None \<Rightarrow> Str v | Some n \<Rightarrow> Num n)"

text \<open>
  \<^verbatim>\<open>
  buildJsonQuery: function(query) {
    if (query === '') return false;
    let params = new URLSearchParams(query);
    let q = {};
    // Set keys in object and get values, convert to number (!NaN)
    params.forEach(function(value, key) {
      let k = key.replace('[]', '');
      if (!q.hasOwnProperty(k))
        q[k] = params.getAll(key).map(value => {
          return (isNaN(value)) ? value : +value;
        });
    });
    // Reverse map the parameters to the actual query vars
    Object.keys(this.history.map).map(key => {
      if (q.hasOwnProperty(this.history.map[key])) {
        q[key] = q[this.history.map[key]];
        delete q[this.history.map[key]];
      }
    });
    return q;
  }
  \<close>
  \<open>collect\<close> is the callback of \<^verbatim>\<open>forEach\<close> and \<open>unmap\<close> the one of the reverse
  mapping; \<open>hmap\<close> is \<^verbatim>\<open>this.history.map\<close>. The result \<^verbatim>\<open>false\<close> is \<open>None\<close>. Every value
  of the result is an array. Keys that name a member of \<^verbatim>\<open>Object.prototype\<close>
  (\<^verbatim>\<open>hasOwnProperty\<close>, \<^verbatim>\<open>__proto__\<close>) are outside the model.
\<close>

definition collect :: "(string \<times> string) list \<Rightarrow> obj \<Rightarrow> string \<times> string \<Rightarrow> obj" where
  "collect ps q kv =
     (let k = strip_brackets (fst kv)
      in if map_of q k \<noteq> None then q
         else q @ [(k, Arr (map convert (getAll ps (fst kv))))])"

definition unmap :: "obj \<Rightarrow> string \<times> string \<Rightarrow> obj" where
  "unmap q m =
     (case map_of q (snd m) of
        None \<Rightarrow> q
      | Some v \<Rightarrow> AList.delete (snd m) (AList.update (fst m) v q))"

definition buildJsonQuery :: "(string \<times> string) list \<Rightarrow> string \<Rightarrow> obj option" where
  "buildJsonQuery hmap str =
     (if str = [] then None
      else let ps = URLSearchParams str;
               q = foldl (collect ps) [] ps
           in Some (foldl unmap q hmap))"

section \<open>The component's state\<close>

text \<open>
  A filter and a taxonomy, as the \<^verbatim>\<open>terms\<close> map of \<^verbatim>\<open>maps()\<close> builds them. Only the
  fields the methods read or write are kept (\<^verbatim>\<open>name\<close>, \<^verbatim>\<open>slug\<close> of a filter and the display
  flags of a taxonomy are left out). A taxonomy has no \<^verbatim>\<open>checked\<close> property until the
  first interaction sets it: \<open>t_checked = None\<close>.
\<close>

record tfilter =
  f_id :: int
  f_parent :: string
  f_active :: bool
  f_checked :: bool

record taxonomy =
  t_slug :: string
  t_checked :: "bool option"
  t_filters :: "tfilter list"

text \<open>
  The query object \<^verbatim>\<open>{page: 1, per_page: 5, ...}\<close>. Its \<^verbatim>\<open>page\<close> is a number and its first
  key, as in the component's \<^verbatim>\<open>data\<close>; the other keys follow in insertion order.
\<close>

record query =
  page :: int
  others :: obj

definition query_obj :: "query \<Rightarrow> obj" where
  "query_obj q = (''page'', Scalar (Num (page q))) # others q"

definition query_get :: "query \<Rightarrow> string \<Rightarrow> jsval option" where
  "query_get q k = (if k = ''page'' then Some (Scalar (Num (page q))) else map_of (others q) k)"

text \<open>The pagination headers; \<^verbatim>\<open>response\<close> stores a number or, for non-numeric text, the text.\<close>

record headers =
  pages :: scalar
  total :: scalar
  link :: scalar

text \<open>
  One entry of \<^verbatim>\<open>this.posts\<close>. \<^verbatim>\<open>posts\<close> is an array of items or \<^verbatim>\<open>false\<close> (\<open>None\<close>, set by
  \<^verbatim>\<open>process\<close> for a payload that is not an array); \<^verbatim>\<open>headers\<close> is absent until \<^verbatim>\<open>process\<close> sets it.
\<close>

record 'i page_entry =
  p_posts :: "'i list option"
  p_query :: query
  p_show :: bool
  p_headers :: "headers option"

text \<open>What the calls to the error handler \<^verbatim>\<open>this.error\<close> receive.\<close>

datatype err =
  Rejection
| BadData string query

text \<open>
  The reactive data of the component, and the effects outside it as logs: every string
  passed to \<^verbatim>\<open>window.history.replaceState\<close> (the query-string part), every argument of
  \<^verbatim>\<open>this.error\<close>, every URL given to \<^verbatim>\<open>fetch\<close>, oldest first. \<^verbatim>\<open>posts\<close> is the sparse array:
  \<open>None\<close> is a hole.
\<close>

record 'i state =
  init :: bool
  terms :: "taxonomy list"
  query :: query
  headers :: headers
  posts :: "'i page_entry option list"
  address :: "string list"
  errors :: "err list"
  fetched :: "string list"

text \<open>The data a subclass configures and no method changes.\<close>

record config =
  params :: "string list"
  history_omit :: "string list"
  history_map :: "(string \<times> string) list"
  history_filterParams :: bool
  domain :: string
  lang_path :: string
  endpoint :: string

text \<open>
  The network. \<^verbatim>\<open>fetch(url)\<close> rejects or resolves with a response; \<^verbatim>\<open>response.json()\<close> rejects
  (\<open>body = None\<close>) or yields an array of raw items or another JSON value (kept as text).
\<close>

datatype 'r json = JsonArray "'r list" | JsonOther string

record 'r response =
  ok :: bool
  resp_headers :: "(string \<times> string) list"
  body :: "'r json option"

datatype 'r fetch_result = NetworkError | Response "'r response"

datatype js_error = TypeError

subsection \<open>The sparse array of pages\<close>

text \<open>\<^verbatim>\<open>this.posts[i]\<close>: \<^verbatim>\<open>undefined\<close> for a hole and outside the array.\<close>

definition posts_at :: "'a option list \<Rightarrow> int \<Rightarrow> 'a option" where
  "posts_at ps i = (if 0 \<le> i \<and> nat i < length ps then ps ! nat i else None)"

text \<open>
  \<^verbatim>\<open>this.$set(this.posts, n, v)\<close>, which is
  \<^verbatim>\<open>target.length = Math.max(target.length, n); target.splice(n, 1, v)\<close>.
\<close>

definition set_at :: "'a option list \<Rightarrow> nat \<Rightarrow> 'a \<Rightarrow> 'a option list" where
  "set_at ps n v =
     (if n < length ps then ps[n := Some v]
      else ps @ replicate (n - length ps) None @ [Some v])"

text \<open>\<^verbatim>\<open>this.$set(this.posts[i], field, v)\<close> on an entry that exists.\<close>

definition update_at :: "'a option list \<Rightarrow> int \<Rightarrow> ('a \<Rightarrow> 'a) \<Rightarrow> 'a option list" where
  "update_at ps i f =
     (if 0 \<le> i \<and> nat i < length ps then ps[nat i := map_option f (ps ! nat i)] else ps)"

section \<open>Derived view state\<close>

text \<open>
  \<^verbatim>\<open>
  loading: function() {
    if (!this.posts.length) return false;
    let page = this.posts[this.query.page];
    return this.init && !page.posts.length && page.show;
  }
  \<close>
  \<^verbatim>\<open>&&\<close> evaluates \<^verbatim>\<open>page.posts\<close> only when \<^verbatim>\<open>this.init\<close> is true; on \<^verbatim>\<open>undefined\<close> that
  read throws a TypeError. \<^verbatim>\<open>false.length\<close> is \<^verbatim>\<open>undefined\<close>, so \<^verbatim>\<open>!page.posts.length\<close> holds
  for \<^verbatim>\<open>false\<close> as for the empty array.
\<close>

definition no_length :: "'i list option \<Rightarrow> bool" where
  "no_length ps = (case ps of None \<Rightarrow> True | Some xs \<Rightarrow> length xs = 0)"

definition loading :: "'i state \<Rightarrow> js_error + bool" where
  "loading s =
     (if length (posts s) = 0 then Inr False
      else if \<not> init s then Inr False
      else (case posts_at (posts s) (page (query s)) of
              None \<Rightarrow> Inl TypeError
            | Some p \<Rightarrow> Inr (no_length (p_posts p) \<and> p_show p)))"

section \<open>Filters\<close>

text \<open>
  \<^verbatim>\<open>
  updateQuery: function(taxonomy, terms) {
    return new Promise((resolve) => {
      this.$set(this.query, taxonomy, terms);
      this.$set(this.query, 'page', 1);
      // hide all of the posts
      this.posts.map((value, index) => {
        if (value) this.$set(this.posts[index], 'show', false);
        return value;
      });
      resolve();
    })
    .then(this.wp)
    .catch(...);
  }
  \<close>
  The executor runs at once; this is its effect. (With the key \<^verbatim>\<open>page\<close> as taxonomy the
  second assignment overwrites the first.) The fetch run \<^verbatim>\<open>this.wp\<close> follows as a
  separate step, \<open>wp\<close> below.
\<close>

definition updateQuery :: "string \<Rightarrow> jsval \<Rightarrow> 'i state \<Rightarrow> 'i state" where
  "updateQuery tax v s =
     s\<lparr>query := \<lparr>page = 1,
                  others = (if tax = ''page'' then others (query s)
                            else AList.update tax v (others (query s)))\<rparr>,
       posts := map (map_option (\<lambda>p. p\<lparr>p_show := False\<rparr>)) (posts s)\<rparr>"

text \<open>\<^verbatim>\<open>String.prototype.includes\<close>: the second string occurs in the first.\<close>

fun includes_str :: "string \<Rightarrow> string \<Rightarrow> bool" where
  "includes_str [] t = (t = [])"
| "includes_str (c # cs) t = (take (length t) (c # cs) = t \<or> includes_str cs t)"

text \<open>
  \<^verbatim>\<open>
  filter: function(taxonomy, term) {
    let terms = (this.query.hasOwnProperty(taxonomy)) ?
      this.query[taxonomy] : [term];
    if (this.query.hasOwnProperty(taxonomy))
      terms = (terms.includes(term)) ?
        terms.filter(el => el !== term) : terms.concat([term]);
    this.updateQuery(taxonomy, terms);
    return this;
  }
  \<close>
  A number has no \<^verbatim>\<open>includes\<close> and a string no \<^verbatim>\<open>filter\<close>: a TypeError, before any
  change. A string that does not include the term is concatenated with it.
\<close>

definition filter_terms :: "string \<Rightarrow> int \<Rightarrow> 'i state \<Rightarrow> js_error option \<times> 'i state" where
  "filter_terms tax term s =
     (case query_get (query s) tax of
        None \<Rightarrow> (None, updateQuery tax (Arr [Num term]) s)
      | Some (Arr ts) \<Rightarrow>
          (None, updateQuery tax
             (Arr (if Num term \<in> set ts then filter (\<lambda>el. el \<noteq> Num term) ts
                   else ts @ [Num term])) s)
      | Some (Scalar (Num n)) \<Rightarrow> (Some TypeError, s)
      | Some (Scalar (Str str)) \<Rightarrow>
          if includes_str str (show_int term) then (Some TypeError, s)
          else (None, updateQuery tax (Scalar (Str (str @ show_int term))) s))"

text \<open>\<^verbatim>\<open>this.terms.find(t => t.slug === taxonomy)\<close>, as the position of the object found.\<close>

fun find_index :: "('a \<Rightarrow> bool) \<Rightarrow> 'a list \<Rightarrow> nat option" where
  "find_index P [] = None"
| "find_index P (x # xs) = (if P x then Some 0 else map_option Suc (find_index P xs))"

text \<open>\<^verbatim>\<open>tax.filters.filter(t => t.checked).length === tax.filters.length\<close>\<close>

definition all_checked :: "tfilter list \<Rightarrow> bool" where
  "all_checked fs = (length (filter f_checked fs) = length fs)"

text \<open>
  \<^verbatim>\<open>
  filterAll: function(taxonomy) {
    let tax = this.terms.find(t => t.slug === taxonomy);
    let checked = (tax.hasOwnProperty('checked'))
      ? !(tax.checked) : !(tax.filters.filter(t => t.checked).length === tax.filters.length);
    this.$set(tax, 'checked', checked);
    let terms = tax.filters.map(term => {
      this.$set(term, 'checked', checked);
      return term.id;
    });
    this.updateQuery(taxonomy, (checked) ? terms : []);
    return this;
  }
  \<close>
  When no taxonomy has the slug, \<^verbatim>\<open>tax\<close> is \<^verbatim>\<open>undefined\<close> and the first read throws.
\<close>

definition filterAll :: "string \<Rightarrow> 'i state \<Rightarrow> js_error option \<times> 'i state" where
  "filterAll tax s =
     (case find_index (\<lambda>t. t_slug t = tax) (terms s) of
        None \<Rightarrow> (Some TypeError, s)
      | Some j \<Rightarrow>
          let t = terms s ! j;
              c = (case t_checked t of Some b \<Rightarrow> \<not> b | None \<Rightarrow> \<not> all_checked (t_filters t));
              t' = t\<lparr>t_checked := Some c,
                      t_filters := map (\<lambda>f. f\<lparr>f_checked := c\<rparr>) (t_filters t)\<rparr>;
              ids = map (\<lambda>f. Num (f_id f)) (t_filters t)
          in (None, updateQuery tax (Arr (if c then ids else [])) (s\<lparr>terms := (terms s)[j := t']\<rparr>)))"

text \<open>
  The event of \<^verbatim>\<open>click\<close> carries in \<^verbatim>\<open>event.data\<close> either a filter object of \<^verbatim>\<open>this.terms\<close>
  (here its position: taxonomy index and filter index) or, for the toggle-all control, an
  object with only \<^verbatim>\<open>parent\<close>.
  \<^verbatim>\<open>
  click: function(event) {
    let taxonomy = event.data.parent;
    let term = event.data.id || false;
    if (term) {
      this.$set(event.data, 'checked', !event.data.checked);
      let tax = this.terms.find(t => t.slug === taxonomy);
      let checked = (tax.filters.filter(t => t.checked).length === tax.filters.length);
      this.$set(tax, 'checked', checked);
      this.filter(taxonomy, term);
    } else {
      this.filterAll(taxonomy);
    }
    return this;
  }
  \<close>
  An id of 0 is falsy and takes the toggle-all branch. A position with no filter is no
  event of the component; \<open>click\<close> leaves the state as it is there.
\<close>

datatype event = OnFilter nat nat | OnTaxonomy string

definition filter_of :: "taxonomy list \<Rightarrow> nat \<Rightarrow> nat \<Rightarrow> tfilter option" where
  "filter_of ts i j =
     (if i < length ts \<and> j < length (t_filters (ts ! i)) then Some (t_filters (ts ! i) ! j)
      else None)"

definition flipf :: "tfilter \<Rightarrow> tfilter" where
  "flipf f = f\<lparr>f_checked := \<not> f_checked f\<rparr>"

definition flip_checked :: "taxonomy list \<Rightarrow> nat \<Rightarrow> nat \<Rightarrow> taxonomy list" where
  "flip_checked ts i j =
     ts[i := (ts ! i)\<lparr>t_filters := (t_filters (ts ! i))[j := flipf (t_filters (ts ! i) ! j)]\<rparr>]"

definition set_checked :: "taxonomy list \<Rightarrow> nat \<Rightarrow> taxonomy list" where
  "set_checked ts k = ts[k := (ts ! k)\<lparr>t_checked := Some (all_checked (t_filters (ts ! k)))\<rparr>]"

definition click :: "event \<Rightarrow> 'i state \<Rightarrow> js_error option \<times> 'i state" where
  "click ev s =
     (case ev of
        OnTaxonomy tax \<Rightarrow> filterAll tax s
      | OnFilter i j \<Rightarrow>
          (case filter_of (terms s) i j of
             None \<Rightarrow> (None, s)
           | Some f \<Rightarrow>
               if f_id f \<noteq> 0 then
                 (let s1 = s\<lparr>terms := flip_checked (terms s) i j\<rparr> in
                  case find_index (\<lambda>t. t_slug t = f_parent f) (terms s1) of
                    None \<Rightarrow> (Some TypeError, s1)
                  | Some k \<Rightarrow>
                      filter_terms (f_parent f) (f_id f) (s1\<lparr>terms := set_checked (terms s1) k\<rparr>))
               else filterAll (f_parent f) s))"

text \<open>\<^verbatim>\<open>toggle: function(event) { this.filterAll(event.data.parent); return this; }\<close>\<close>

definition toggle :: "string \<Rightarrow> 'i state \<Rightarrow> js_error option \<times> 'i state" where
  "toggle tax s = filterAll tax s"

text \<open>
  \<^verbatim>\<open>
  reset: function(event) {
    for (let index = 0; index < this.terms.length; index++) {
      this.updateQuery(this.terms[index].slug, []);
      this.$set(this.terms[index], 'checked', false);
      this.terms[index].filters.forEach(f => {
        this.$set(f, 'checked', false);
      });
    }
  }
  \<close>
\<close>

definition uncheck :: "taxonomy \<Rightarrow> taxonomy" where
  "uncheck t = t\<lparr>t_checked := Some False,
                 t_filters := map (\<lambda>f. f\<lparr>f_checked := False\<rparr>) (t_filters t)\<rparr>"

definition reset_step :: "nat \<Rightarrow> 'i state \<Rightarrow> 'i state" where
  "reset_step index s =
     (let s1 = updateQuery (t_slug (terms s ! index)) (Arr []) s
      in s1\<lparr>terms := (terms s1)[index := uncheck (terms s1 ! index)]\<rparr>)"

definition reset :: "'i state \<Rightarrow> 'i state" where
  "reset s = fold reset_step [0..<length (terms s)] s"

section \<open>The fetch run\<close>

text \<open>
  \<^verbatim>\<open>
  replaceState: function(query) {
    let history = {};
    if (this.history.filterParams) {
      Object.keys(query).map(p => {
        if (this.params.includes(p)) history[p] = query[p];
      });
    } else {
      history = query;
    }
    let state = this.buildUrlQuery(history, this.history.omit, this.history.map);
    window.history.replaceState(null, null, window.location.pathname + state);
    return this;
  }
  \<close>
  \<open>history_state\<close> is the string \<^verbatim>\<open>state\<close>.
\<close>

definition history_state :: "config \<Rightarrow> query \<Rightarrow> string" where
  "history_state cfg q =
     (let history = (if history_filterParams cfg
                     then filter (\<lambda>kv. fst kv \<in> set (params cfg)) (query_obj q)
                     else query_obj q)
      in buildUrlQuery history (Some (history_omit cfg)) (Some (history_map cfg)))"

definition replaceState :: "config \<Rightarrow> query \<Rightarrow> 'i state \<Rightarrow> 'i state" where
  "replaceState cfg q s = s\<lparr>address := address s @ [history_state cfg q]\<rparr>"

text \<open>
  \<^verbatim>\<open>
  wpQuery: function(query) {
    let wpQuery = {};
    Object.keys(query).map(p => {
      if (this.params.includes(p)) wpQuery[p] = query[p];
    });
    let url = [this.domain, this.lang.path, this.endpoints[this.type],
      this.buildUrlQuery(wpQuery)].join('');
    this.$set(this.posts, query.page, {
      posts: [],
      query: Object.freeze(query),
      show: (this.query.page >= query.page)
    });
    return fetch(url);
  }
  \<close>
  \<open>request_url\<close> is the URL built; the result here is the URL and the state, and
  the request itself is \<open>send\<close> below.
  \<^verbatim>\<open>queue\<close> calls it with \<^verbatim>\<open>query.page\<close> positive only.
\<close>

definition request_url :: "config \<Rightarrow> query \<Rightarrow> string" where
  "request_url cfg q =
     (let wp = filter (\<lambda>kv. fst kv \<in> set (params cfg)) (query_obj q)
      in domain cfg @ lang_path cfg @ endpoint cfg @ buildUrlQuery wp None None)"

definition wpQuery :: "config \<Rightarrow> query \<Rightarrow> 'i state \<Rightarrow> string \<times> 'i state" where
  "wpQuery cfg q s =
     (let url = request_url cfg q
      in (url,
          s\<lparr>posts := set_at (posts s) (nat (page q))
                 \<lparr>p_posts = Some [], p_query = q,
                  p_show = (page (query s) \<ge> page q), p_headers = None\<rparr>,
            fetched := fetched s @ [url]\<rparr>))"

text \<open>
  \<^verbatim>\<open>
  response: function(response) {
    let headers = {total: 'X-WP-Total', pages: 'X-WP-TotalPages', link: 'Link'};
    if (response.ok) {
      let keys = Object.keys(headers);
      for (let i = 0; i < keys.length; i++) {
        let header = response.headers.get(headers[keys[i]]);
        let value = (isNaN(header)) ? header : (parseInt(header) || 0);
        headers[keys[i]] = value;
      }
      this.$set(this, 'headers', headers);
    }
    return response.json();
  }
  \<close>
  A header that is absent reads as \<^verbatim>\<open>null\<close>, which is not \<^verbatim>\<open>NaN\<close> and parses to 0.
  \<open>to_number\<close> stands for both \<^verbatim>\<open>isNaN\<close> and \<^verbatim>\<open>parseInt\<close>: the two agree on the
  digit strings of the model, and differ on text such as \<^verbatim>\<open>1.5\<close> or \<^verbatim>\<open>1e3\<close>, which is
  outside it.
\<close>

definition header_value :: "string option \<Rightarrow> scalar" where
  "header_value h =
     (case h of
        None \<Rightarrow> Num 0
      | Some t \<Rightarrow> (case to_number t of None \<Rightarrow> Str t | Some n \<Rightarrow> Num n))"

definition parse_headers :: "(string \<times> string) list \<Rightarrow> headers" where
  "parse_headers hs =
     \<lparr>pages = header_value (map_of hs ''X-WP-TotalPages''),
      total = header_value (map_of hs ''X-WP-Total''),
      link = header_value (map_of hs ''Link'')\<rparr>"

definition response :: "'r response \<Rightarrow> 'i state \<Rightarrow> 'r json option \<times> 'i state" where
  "response r s = (body r, if ok r then s\<lparr>headers := parse_headers (resp_headers r)\<rparr> else s)"

text \<open>
  \<^verbatim>\<open>error: function(response) { if (development) console.dir(response); }\<close>: the call
  is recorded.
\<close>

definition error :: "err \<Rightarrow> 'i state \<Rightarrow> 'i state" where
  "error e s = s\<lparr>errors := errors s @ [e]\<rparr>"

text \<open>
  \<^verbatim>\<open>
  process: function(data, query, headers) {
    let posts = (Array.isArray(data)) ? data.map(this.maps()[this.type]) : false;
    this.$set(this.posts[query.page], 'posts', posts);
    this.$set(this.posts[query.page], 'headers', Object.freeze(headers));
    if (!Array.isArray(data))
      this.error({error: data, query: query});
    this.$set(this, 'init', true);
  }
  \<close>
  \<open>maps\<close> is the response mapper of the active endpoint. Were the entry absent,
  \<^verbatim>\<open>$set\<close> would throw inside the promise chain, whose \<^verbatim>\<open>catch\<close> is \<^verbatim>\<open>this.error\<close>.
\<close>

definition process ::
  "('r \<Rightarrow> 'i) \<Rightarrow> 'r json \<Rightarrow> query \<Rightarrow> headers \<Rightarrow> 'i state \<Rightarrow> 'i state" where
  "process maps d q h s =
     (case posts_at (posts s) (page q) of
        None \<Rightarrow> error Rejection s
      | Some _ \<Rightarrow>
          (let items = (case d of JsonArray xs \<Rightarrow> Some (map maps xs) | JsonOther _ \<Rightarrow> None);
               s1 = s\<lparr>posts := update_at (posts s) (page q)
                                 (\<lambda>p. p\<lparr>p_posts := items, p_headers := Some h\<rparr>)\<rparr>;
               s2 = (case d of JsonArray _ \<Rightarrow> s1 | JsonOther t \<Rightarrow> error (BadData t q) s1)
           in s2\<lparr>init := True\<rparr>))"

text \<open>
  The awaited chain of \<^verbatim>\<open>queue\<close> for one page:
  \<^verbatim>\<open>
  await promise.then(() => { return this.wpQuery(query); })
    .then(this.response)
    .then(data => {
      let headers = Object.assign({}, this.headers);
      // If this is the current page, replace the browser history state.
      if (current) this.replaceState(query);
      this.process(data, query, headers);
    }).catch(this.error);
  \<close>
  \<open>srv\<close> is the remote API, from the URL to what \<^verbatim>\<open>fetch\<close> gives. A rejected
  \<^verbatim>\<open>fetch\<close> or \<^verbatim>\<open>json()\<close> skips to \<^verbatim>\<open>catch\<close>.
\<close>

definition send ::
  "config \<Rightarrow> (string \<Rightarrow> 'r fetch_result) \<Rightarrow> ('r \<Rightarrow> 'i) \<Rightarrow> bool \<Rightarrow> query \<Rightarrow> 'i state \<Rightarrow> 'i state" where
  "send cfg srv maps current q s =
     (case wpQuery cfg q s of
        (url, s1) \<Rightarrow>
          (case srv url of
             NetworkError \<Rightarrow> error Rejection s1
           | Response r \<Rightarrow>
               (case response r s1 of
                  (None, s2) \<Rightarrow> error Rejection s2
                | (Some d, s2) \<Rightarrow>
                    (let h = headers s2;
                         s3 = (if current then replaceState cfg q s2 else s2)
                     in process maps d q h s3))))"

text \<open>
  \<^verbatim>\<open>page < pages\<close> with the stored header: a string header is not a number, and a
  comparison with \<^verbatim>\<open>NaN\<close> is false.
\<close>

definition less_header :: "int \<Rightarrow> scalar \<Rightarrow> bool" where
  "less_header n h =
     (case h of
        Num m \<Rightarrow> n < m
      | Str t \<Rightarrow> (case to_number t of None \<Rightarrow> False | Some m \<Rightarrow> n < m))"

text \<open>
  One round of the loop of \<^verbatim>\<open>queue\<close>, for the offset \<^verbatim>\<open>queries[i]\<close>. \<open>obj1\<close> is the
  benchmark \<^verbatim>\<open>Obj1\<close>, the query without \<^verbatim>\<open>page\<close>, taken when \<^verbatim>\<open>queue\<close> starts.
  \<^verbatim>\<open>
  let query = Object.assign({}, this.query);
  let pages = this.headers.pages;
  let page = this.query.page;
  Object.defineProperty(query, 'page', {value: page + queries[i], enumerable: true});
  // There will never be a page 0 or below, so skip this query.
  if (query.page <= 0) continue;
  let havePage = (this.posts[query.page]) ? true : false;
  let pageQueryMatches = false;
  if (havePage) {
    let Obj2 = Object.assign({}, this.posts[query.page].query);
    delete Obj2.page;
    pageQueryMatches = (JSON.stringify(Obj1) === JSON.stringify(Obj2));
  }
  if (havePage && pageQueryMatches) continue;
  current = (query.page === page);
  next = (page < pages && query.page > page);
  previous = (page > 1 && query.page < page);
  if (current || next || previous) await ...
  \<close>
  \<^verbatim>\<open>JSON.stringify\<close> of two such objects is the same text exactly when the keys, their
  order and the values are the same.
\<close>

definition queue_step ::
  "config \<Rightarrow> (string \<Rightarrow> 'r fetch_result) \<Rightarrow> ('r \<Rightarrow> 'i) \<Rightarrow> obj \<Rightarrow> int \<Rightarrow> 'i state \<Rightarrow> 'i state" where
  "queue_step cfg srv maps obj1 off s =
     (let q = (query s)\<lparr>page := page (query s) + off\<rparr>;
          pgs = pages (headers s);
          pg = page (query s)
      in if page q \<le> 0 then s
         else
           (let havePage = (posts_at (posts s) (page q) \<noteq> None);
                pageQueryMatches =
                  (case posts_at (posts s) (page q) of
                     None \<Rightarrow> False
                   | Some p \<Rightarrow> obj1 = others (p_query p))
            in if havePage \<and> pageQueryMatches then s
               else
                 (let current = (page q = pg);
                      nxt = (less_header pg pgs \<and> page q > pg);
                      previous = (pg > 1 \<and> page q < pg)
                  in if current \<or> nxt \<or> previous then send cfg srv maps current q s
                     else s)))"

text \<open>
  \<^verbatim>\<open>queue: function(queries = [0, 1])\<close>. Each request is awaited before the next round;
  the run is taken as a whole here, with no other event between its rounds.
\<close>

definition queue ::
  "config \<Rightarrow> (string \<Rightarrow> 'r fetch_result) \<Rightarrow> ('r \<Rightarrow> 'i) \<Rightarrow> int list \<Rightarrow> 'i state \<Rightarrow> 'i state" where
  "queue cfg srv maps queries s =
     fold (queue_step cfg srv maps (others (query s))) queries s"

text \<open>\<^verbatim>\<open>wp: function() { return this.queue(); }\<close>\<close>

definition wp :: "config \<Rightarrow> (string \<Rightarrow> 'r fetch_result) \<Rightarrow> ('r \<Rightarrow> 'i) \<Rightarrow> 'i state \<Rightarrow> 'i state" where
  "wp cfg srv maps s = queue cfg srv maps [0, 1] s"

text \<open>
  \<^verbatim>\<open>
  paginate: function(event) {
    let change = parseInt(event.target.dataset.amount);
    let page = this.query.page + change;
    event.preventDefault();
    return new Promise(resolve => {
      this.$set(this.query, 'page', page);
      this.$set(this.posts[this.query.page], 'show', true);
      this.queue([0, change]);
      resolve();
    });
  }
  \<close>
  \<open>change\<close> is the amount parsed. Vue's \<^verbatim>\<open>set\<close> on \<^verbatim>\<open>undefined\<close> throws a TypeError
  (\<^verbatim>\<open>key in target\<close>), after the page has been assigned and before \<^verbatim>\<open>queue\<close>.
\<close>

definition paginate ::
  "config \<Rightarrow> (string \<Rightarrow> 'r fetch_result) \<Rightarrow> ('r \<Rightarrow> 'i) \<Rightarrow> int \<Rightarrow> 'i state \<Rightarrow> js_error option \<times> 'i state" where
  "paginate cfg srv maps change s =
     (let pg = page (query s) + change;
          s1 = s\<lparr>query := (query s)\<lparr>page := pg\<rparr>\<rparr>
      in case posts_at (posts s1) pg of
           None \<Rightarrow> (Some TypeError, s1)
         | Some _ \<Rightarrow>
             (None, queue cfg srv maps [0, change]
                      (s1\<lparr>posts := update_at (posts s1) pg (\<lambda>p. p\<lparr>p_show := True\<rparr>)\<rparr>)))"

text \<open>The component's initial \<^verbatim>\<open>data\<close> and the default settings.\<close>

definition initial :: "'i state" where
  "initial =
     \<lparr>init = False, terms = [],
      query = \<lparr>page = 1, others = [(''per_page'', Scalar (Num 5))]\<rparr>,
      headers = \<lparr>pages = Num 0, total = Num 0, link = Str ''rel=\"next\";''\<rparr>,
      posts = [], address = [], errors = [], fetched = []\<rparr>"

definition defaults :: config where
  "defaults =
     \<lparr>params = [''context'', ''page'', ''per_page'', ''search'', ''after'', ''author'',
        ''author_exclude'', ''before'', ''exclude'', ''include'', ''offset'', ''order'',
        ''orderby'', ''slug'', ''status'', ''tax_relation'', ''categories'',
        ''categories_exclude'', ''tags'', ''tags_exclude'', ''sticky''],
      history_omit = [''page'', ''per_page''],
      history_map = [],
      history_filterParams = False,
      domain = [],
      lang_path = [],
      endpoint = ''/wp-json/wp/v2/posts''\<rparr>"

section \<open>Observations on the codec\<close>

text \<open>
  Text that \<^verbatim>\<open>URLSearchParams\<close> reads back unchanged, and a key that in addition has no
  \<^verbatim>\<open>=\<close>, no \<^verbatim>\<open>[\<close> and is no member of \<^verbatim>\<open>Object.prototype\<close>.
\<close>

definition plain :: "string \<Rightarrow> bool" where
  "plain t = list_all (\<lambda>c. c \<notin> set ''&+%'') t"

definition plain_key :: "string \<Rightarrow> bool" where
  "plain_key k =
     (list_all (\<lambda>c. c \<notin> set ''&+%=['') k \<and> k \<notin> set [''hasOwnProperty'', ''__proto__''])"

text \<open>
  A scalar that its text gives back: a safe integer, or a string that starts with an ASCII
  letter other than \<^verbatim>\<open>I\<close> (so that it is no number to JavaScript either) and is plain.
\<close>

definition is_letter :: "char \<Rightarrow> bool" where
  "is_letter c =
     (let n = (of_char c :: nat) in (65 \<le> n \<and> n \<le> 90) \<or> (97 \<le> n \<and> n \<le> 122))"

definition word :: "string \<Rightarrow> bool" where
  "word t = (case t of [] \<Rightarrow> False | c # cs \<Rightarrow> is_letter c \<and> c \<noteq> CHR ''I'' \<and> plain t)"

definition stable :: "scalar \<Rightarrow> bool" where
  "stable a =
     (case a of
        Num n \<Rightarrow> - 9007199254740992 < n \<and> n < 9007199254740992
      | Str t \<Rightarrow> word t)"

definition elems :: "jsval \<Rightarrow> scalar list" where
  "elems v = (case v of Arr xs \<Rightarrow> xs | Scalar a \<Rightarrow> [a])"

text \<open>The query with every scalar as a one-element list and without the empty lists.\<close>

definition as_lists :: "obj \<Rightarrow> obj" where
  "as_lists q = map (\<lambda>kv. (fst kv, Arr (elems (snd kv)))) (filter (\<lambda>kv. snd kv \<noteq> Arr []) q)"

definition codable :: "obj \<Rightarrow> bool" where
  "codable q =
     (distinct (map fst q)
      \<and> list_all (\<lambda>kv. plain_key (fst kv) \<and> list_all stable (elems (snd kv))) q)"

definition lists_only :: "obj \<Rightarrow> bool" where
  "lists_only q = list_all (\<lambda>kv. case snd kv of Arr xs \<Rightarrow> xs \<noteq> [] | Scalar a \<Rightarrow> False) q"

text \<open>The name and value pairs that the encoder writes for one entry and for a query.\<close>

definition name_of :: "string \<times> jsval \<Rightarrow> string" where
  "name_of kv = (case snd kv of Arr xs \<Rightarrow> fst kv @ ''[]'' | Scalar a \<Rightarrow> fst kv)"

definition piece_pairs :: "string \<times> jsval \<Rightarrow> (string \<times> string) list" where
  "piece_pairs kv = map (\<lambda>a. (name_of kv, to_string a)) (elems (snd kv))"

definition pairs :: "obj \<Rightarrow> (string \<times> string) list" where
  "pairs q = concat (map piece_pairs q)"

definition pair_text :: "string \<times> string \<Rightarrow> string" where
  "pair_text p = fst p @ ''='' @ snd p"

definition plain_pair :: "string \<times> string \<Rightarrow> bool" where
  "plain_pair p = (plain (fst p) \<and> CHR ''='' \<notin> set (fst p) \<and> plain (snd p))"

section \<open>Observations on the page store\<close>

text \<open>Every entry is marked not visible; the query snapshots of the entries, by index.\<close>

definition hidden :: "'i page_entry option list \<Rightarrow> bool" where
  "hidden ps = list_all (\<lambda>e. case e of None \<Rightarrow> True | Some p \<Rightarrow> \<not> p_show p) ps"

definition snapshots :: "'i page_entry option list \<Rightarrow> query option list" where
  "snapshots ps = map (map_option p_query) ps"

text \<open>
  From \<open>s\<close> to \<open>s'\<close> the page became 1 and every entry hidden, and no entry was removed
  or given another snapshot.
\<close>

definition hides_all :: "'i state \<Rightarrow> 'i state \<Rightarrow> bool" where
  "hides_all s s' =
     (page (query s') = 1 \<and> hidden (posts s') \<and> snapshots (posts s') = snapshots (posts s))"

text \<open>
  The entry at \<open>n\<close> is as \<^verbatim>\<open>wpQuery\<close> stores it during a run from \<open>s\<close>: visible exactly
  when \<open>n\<close> is at most the current page, with the query of \<open>s\<close> at page \<open>n\<close> as snapshot.
\<close>

definition stored_by :: "'i state \<Rightarrow> 'i page_entry option list \<Rightarrow> int \<Rightarrow> bool" where
  "stored_by s ps n =
     (case posts_at ps n of
        None \<Rightarrow> False
      | Some e \<Rightarrow> p_show e = (n \<le> page (query s)) \<and> p_query e = (query s)\<lparr>page := n\<rparr>)"

text \<open>\<^verbatim>\<open>havePage && pageQueryMatches\<close> of \<^verbatim>\<open>queue\<close>, for the entry found.\<close>

definition fresh :: "obj \<Rightarrow> 'i page_entry option \<Rightarrow> bool" where
  "fresh obj1 e = (case e of None \<Rightarrow> False | Some p \<Rightarrow> obj1 = others (p_query p))"

text \<open>The taxonomies after \<open>click\<close> on the filter at \<open>(i, j)\<close> whose parent slug is \<open>parent\<close>.\<close>

definition clicked :: "taxonomy list \<Rightarrow> nat \<Rightarrow> nat \<Rightarrow> string \<Rightarrow> taxonomy list" where
  "clicked ts i j parent =
     (case find_index (\<lambda>t. t_slug t = parent) ts of
        None \<Rightarrow> flip_checked ts i j
      | Some k \<Rightarrow> set_checked (flip_checked ts i j) k)"

section \<open>Scenarios\<close>

text \<open>
  Servers and states for the worked scenarios. Raw items are numbers and the response
  mapper is the identity.
\<close>

definition paged_server :: "string \<Rightarrow> string \<Rightarrow> string \<Rightarrow> nat fetch_result" where
  "paged_server n_total n_pages url =
     Response \<lparr>ok = True,
               resp_headers = [(''X-WP-Total'', n_total), (''X-WP-TotalPages'', n_pages)],
               body = Some (JsonArray [7, 8])\<rparr>"

definition failing_server :: "string \<Rightarrow> nat fetch_result" where
  "failing_server url =
     Response \<lparr>ok = False, resp_headers = [(''X-WP-TotalPages'', ''9'')],
               body = Some (JsonOther ''rest_invalid_param'')\<rparr>"

definition broken_server :: "string \<Rightarrow> nat fetch_result" where
  "broken_server url = Response \<lparr>ok = False, resp_headers = [], body = None\<rparr>"

definition colors :: taxonomy where
  "colors =
     \<lparr>t_slug = ''colors'', t_checked = None,
      t_filters = [\<lparr>f_id = 1, f_parent = ''colors'', f_active = False, f_checked = False\<rparr>,
                   \<lparr>f_id = 2, f_parent = ''colors'', f_active = False, f_checked = False\<rparr>]\<rparr>"

definition with_colors :: "nat state" where
  "with_colors = initial\<lparr>terms := [colors]\<rparr>"

text \<open>
  A three-page collection after the first load and one \<^verbatim>\<open>paginate\<close> forward (pages 1
  to 3 are in the store), and the states after a click on the first and on the second
  filter, before anything is loaded.
\<close>

definition three_pages :: "nat state" where
  "three_pages = snd (paginate defaults (paged_server ''12'' ''3'') (\<lambda>x. x) 1
                        (wp defaults (paged_server ''12'' ''3'') (\<lambda>x. x) with_colors))"

definition red_only :: "nat state" where
  "red_only = snd (click (OnFilter 0 0) with_colors)"

definition blue_only :: "nat state" where
  "blue_only = snd (click (OnFilter 0 1) with_colors)"

text \<open>A taxonomy whose first filter has the id 0 and is checked; the second is not.\<close>

definition zero_id :: "nat state" where
  "zero_id =
     initial\<lparr>terms :=
       [\<lparr>t_slug = ''colors'', t_checked = None,
         t_filters = [\<lparr>f_id = 0, f_parent = ''colors'', f_active = True, f_checked = True\<rparr>,
                      \<lparr>f_id = 2, f_parent = ''colors'', f_active = False, f_checked = False\<rparr>]\<rparr>]\<rparr>"

section \<open>Properties of the encoder\<close>

lemma url_entry_empty_list:
  "snd kv = Arr [] \<Longrightarrow> truthy (url_entry omit rmap kv # rs) = truthy rs"
  by (simp add: url_entry_def)

lemma truthy_drop_empty_lists:
  "truthy (map (url_entry omit rmap) (filter (\<lambda>kv. snd kv \<noteq> Arr []) q)) =
   truthy (map (url_entry omit rmap) q)"
proof (induction q)
  case Nil
  show ?case by simp
next
  case (Cons kv q)
  show ?case
  proof (cases "snd kv = Arr []")
    case True
    then show ?thesis using Cons.IH by (simp add: url_entry_empty_list)
  next
    case False
    then show ?thesis using Cons.IH
      by (cases "url_entry omit rmap kv") simp_all
  qed
qed

lemma truthy_all_dropped:
  "\<forall>kv \<in> set q. omitted omit (fst kv) \<or> snd kv = Arr [] \<Longrightarrow>
   truthy (map (url_entry omit rmap) q) = []"
proof (induction q)
  case Nil
  show ?case by simp
next
  case (Cons kv q)
  from Cons.prems have "omitted omit (fst kv) \<or> snd kv = Arr []" by simp
  then have "truthy (url_entry omit rmap kv # map (url_entry omit rmap) q)
             = truthy (map (url_entry omit rmap) q)"
    by (auto simp: url_entry_def)
  with Cons show ?case by simp
qed

text \<open>
  C10. A key whose value is the empty list leaves no trace in the query string: the
  result is the encoding of the query without those keys. When every key is omitted or
  holds the empty list, the result is the empty string, not \<^verbatim>\<open>?\<close>.
\<close>

theorem buildUrlQuery_empty_lists:
  "buildUrlQuery q omit rmap = buildUrlQuery (filter (\<lambda>kv. snd kv \<noteq> Arr []) q) omit rmap
   \<and> ((\<forall>kv \<in> set q. omitted omit (fst kv) \<or> snd kv = Arr []) \<longrightarrow>
        buildUrlQuery q omit rmap = [])"
  by (simp add: buildUrlQuery_def truthy_drop_empty_lists truthy_all_dropped)

theorem buildUrlQuery_empty_lists_witness:
  "omitted (Some [''page'']) ''page''
   \<and> buildUrlQuery [(''page'', Scalar (Num 1)), (''colors'', Arr [])] (Some [''page'']) (Some [])
     = []"
proof -
  have h: "\<forall>kv \<in> set [(''page'', Scalar (Num 1)), (''colors'', Arr [])].
         omitted (Some [''page'']) (fst kv) \<or> snd kv = Arr []"
    by (simp add: omitted_def)
  have "buildUrlQuery [(''page'', Scalar (Num 1)), (''colors'', Arr [])] (Some [''page'']) (Some [])
     = []"
    using buildUrlQuery_empty_lists
      [of "[(''page'', Scalar (Num 1)), (''colors'', Arr [])]" "Some [''page'']" "Some []"] h
    by blast
  then show ?thesis by (simp add: omitted_def)
qed

section \<open>The round trip of the codec\<close>

subsection \<open>Numbers and their text\<close>

lemma of_char_digit_char: "d < 10 \<Longrightarrow> (of_char (digit_char d) :: nat) = 48 + d"
  by (simp add: digit_char_def)

lemma is_digit_digit_char: "d < 10 \<Longrightarrow> is_digit (digit_char d)"
  by (simp add: is_digit_def of_char_digit_char)

lemma show_nat_nonempty: "show_nat n \<noteq> []"
  by (subst show_nat.simps) simp

lemma digits_show_nat: "list_all is_digit (show_nat n)"
proof (induction n rule: show_nat.induct)
  case (1 n)
  show ?case
  proof (cases "n < 10")
    case True
    then show ?thesis
      by (subst show_nat.simps) (simp add: is_digit_digit_char)
  next
    case False
    with 1 show ?thesis
      by (subst show_nat.simps) (simp add: is_digit_digit_char)
  qed
qed

lemma digits_value_snoc:
  "digits_value (ds @ [c]) = 10 * digits_value ds + (of_char c - 48)"
  by (simp add: digits_value_def)

lemma digits_value_show_nat: "digits_value (show_nat n) = n"
proof (induction n rule: show_nat.induct)
  case (1 n)
  show ?case
  proof (cases "n < 10")
    case True
    then show ?thesis
      by (subst show_nat.simps) (simp add: digits_value_def of_char_digit_char)
  next
    case False
    then have "digits_value (show_nat n)
               = 10 * digits_value (show_nat (n div 10)) + (of_char (digit_char (n mod 10)) - 48)"
      by (subst show_nat.simps) (simp add: digits_value_snoc)
    also have "\<dots> = 10 * (n div 10) + n mod 10"
      using 1 False by (simp add: of_char_digit_char)
    finally show ?thesis by simp
  qed
qed

lemma is_digit_not_sign: "is_digit c \<Longrightarrow> c \<noteq> CHR ''-'' \<and> c \<noteq> CHR ''+''"
  by (auto simp add: is_digit_def)

lemma to_number_digits:
  assumes "ds \<noteq> []" and "list_all is_digit ds"
  shows "to_number ds = Some (int (digits_value ds))"
proof -
  from assms obtain c cs where ds: "ds = c # cs" by (cases ds) auto
  with assms have "is_digit c" by simp
  then have "c \<noteq> CHR ''-''" "c \<noteq> CHR ''+''" by (simp_all add: is_digit_not_sign)
  with assms ds show ?thesis by (simp add: to_number_def)
qed

lemma to_number_show_int: "to_number (show_int i) = Some i"
proof (cases "i < 0")
  case True
  have "to_number (CHR ''-'' # show_nat (nat (- i))) = Some (- int (digits_value (show_nat (nat (- i)))))"
    by (simp add: to_number_def show_nat_nonempty digits_show_nat)
  with True show ?thesis by (simp add: show_int_def digits_value_show_nat)
next
  case False
  then show ?thesis
    by (simp add: show_int_def to_number_digits show_nat_nonempty digits_show_nat
        digits_value_show_nat)
qed

lemma convert_show_int: "convert (show_int i) = Num i"
  by (simp add: convert_def to_number_show_int)

lemma digit_plain:
  "is_digit c \<Longrightarrow> c \<noteq> CHR ''&'' \<and> c \<noteq> CHR ''+'' \<and> c \<noteq> CHR ''%''"
  by (auto simp add: is_digit_def)

lemma show_int_plain: "plain (show_int i)"
proof -
  have "plain (show_nat n)" for n
    using digits_show_nat [of n] by (simp add: plain_def list_all_iff digit_plain)
  then show ?thesis by (simp add: show_int_def plain_def)
qed

lemma letter_not_digit: "is_letter c \<Longrightarrow> \<not> is_digit c \<and> c \<noteq> CHR ''-'' \<and> c \<noteq> CHR ''+''"
  by (auto simp add: is_letter_def is_digit_def Let_def)

lemma to_number_word: "word t \<Longrightarrow> to_number t = None"
  by (cases t) (auto simp add: word_def to_number_def dest: letter_not_digit)

lemma stable_convert: "stable a \<Longrightarrow> convert (to_string a) = a"
proof (cases a)
  case (Num n)
  then show ?thesis by (simp add: convert_show_int)
next
  case (Str t)
  assume "stable a"
  with Str show ?thesis by (simp add: stable_def convert_def to_number_word)
qed

lemma stable_plain: "stable a \<Longrightarrow> plain (to_string a)"
  by (cases a) (auto simp add: stable_def show_int_plain word_def split: list.splits)

lemma stable_map_convert: "list_all stable xs \<Longrightarrow> map convert (map to_string xs) = xs"
  by (induction xs) (simp_all add: stable_convert)

subsection \<open>Splitting and decoding plain text\<close>

lemma split_on_nonempty: "split_on c t \<noteq> []"
  by (induction t) (auto split: list.splits)

lemma split_on_plain: "c \<notin> set t \<Longrightarrow> split_on c t = [t]"
  by (induction t) auto

lemma split_on_append: "c \<notin> set t \<Longrightarrow> split_on c (t @ c # u) = t # split_on c u"
  by (induction t) (auto split: list.splits simp add: split_on_nonempty)

lemma split_on_join:
  "ts \<noteq> [] \<Longrightarrow> \<forall>t \<in> set ts. c \<notin> set t \<Longrightarrow> split_on c (join [c] ts) = ts"
proof (induction ts)
  case Nil
  then show ?case by simp
next
  case (Cons t ts)
  show ?case
  proof (cases ts)
    case Nil
    with Cons.prems show ?thesis by (simp add: split_on_plain)
  next
    case (Cons u us)
    with Cons.IH Cons.prems have "split_on c (join [c] ts) = ts" by simp
    with Cons Cons.prems show ?thesis by (simp add: split_on_append)
  qed
qed

lemma percent_decode_plain: "CHR ''%'' \<notin> set t \<Longrightarrow> percent_decode t = t"
  by (induction t rule: percent_decode.induct) (auto split: option.splits)

lemma url_decode_plain: "plain t \<Longrightarrow> url_decode t = t"
proof -
  assume p: "plain t"
  then have "map (\<lambda>c. if c = CHR ''+'' then CHR '' '' else c) t = t"
    by (induction t) (simp_all add: plain_def)
  moreover have "CHR ''%'' \<notin> set t" using p by (auto simp add: plain_def list_all_iff)
  ultimately show ?thesis by (simp add: url_decode_def percent_decode_plain)
qed

lemma split_pair_piece:
  "CHR ''='' \<notin> set n \<Longrightarrow> split_pair (n @ CHR ''='' # v) = (n, v)"
  by (induction n) (auto simp add: split_pair_def)

subsection \<open>The encoder as a list of pairs\<close>

lemma join_Cons: "join sep (t # ts) = (if ts = [] then t else t @ sep @ join sep ts)"
  by (cases ts) simp_all

lemma join_append:
  "join sep (ts @ us) =
     (if ts = [] then join sep us else if us = [] then join sep ts
      else join sep ts @ sep @ join sep us)"
  by (induction ts) (auto simp add: join_Cons)

lemma join_empty: "\<forall>t \<in> set ts. t \<noteq> [] \<Longrightarrow> (join sep ts = []) = (ts = [])"
  by (cases ts) (auto simp add: join_Cons)

lemma pair_text_nonempty: "pair_text p \<noteq> []"
  by (simp add: pair_text_def)

lemma url_entry_pieces:
  "url_entry (Some []) (Some []) kv = Some (join ''&'' (map pair_text (piece_pairs kv)))"
  by (cases "snd kv")
    (simp_all add: url_entry_def omitted_def renamed_def piece_pairs_def name_of_def
      elems_def pair_text_def comp_def)

lemma truthy_pieces:
  "join ''&'' (truthy (map (url_entry (Some []) (Some [])) q)) = join ''&'' (map pair_text (pairs q))
   \<and> (truthy (map (url_entry (Some []) (Some [])) q) = []) = (pairs q = [])"
proof (induction q)
  case Nil
  show ?case by (simp add: pairs_def)
next
  case (Cons kv q)
  let ?ps = "map pair_text (piece_pairs kv)"
  have ne: "(join ''&'' ?ps = []) = (piece_pairs kv = [])"
    using join_empty [of ?ps "''&''"] by (simp add: pair_text_nonempty)
  have p: "pairs (kv # q) = piece_pairs kv @ pairs q" by (simp add: pairs_def)
  show ?case
  proof (cases "piece_pairs kv = []")
    case True
    with Cons ne show ?thesis by (simp add: url_entry_pieces p)
  next
    case False
    with ne have j: "join ''&'' ?ps \<noteq> []" by simp
    have t: "truthy (map (url_entry (Some []) (Some [])) (kv # q))
             = join ''&'' ?ps # truthy (map (url_entry (Some []) (Some [])) q)"
      using j by (simp add: url_entry_pieces)
    show ?thesis
      using Cons False by (simp only: t p) (simp add: join_Cons join_append)
  qed
qed

lemma buildUrlQuery_pairs:
  "buildUrlQuery q (Some []) (Some []) =
     (if pairs q = [] then [] else CHR ''?'' # join ''&'' (map pair_text (pairs q)))"
proof -
  have "(join ''&'' (map pair_text (pairs q)) = []) = (pairs q = [])"
    using join_empty [of "map pair_text (pairs q)" "''&''"] by (simp add: pair_text_nonempty)
  then show ?thesis
    using truthy_pieces [of q] by (simp add: buildUrlQuery_def Let_def)
qed

subsection \<open>The parser gives the pairs back\<close>

lemma plain_no_amp: "plain t \<Longrightarrow> CHR ''&'' \<notin> set t"
  by (auto simp add: plain_def list_all_iff)

lemma plain_append: "plain (t @ u) = (plain t \<and> plain u)"
  by (simp add: plain_def)

lemma parse_pair_text:
  "plain_pair p \<Longrightarrow>
   (url_decode (fst (split_pair (pair_text p))), url_decode (snd (split_pair (pair_text p)))) = p"
  by (cases p) (simp add: plain_pair_def pair_text_def split_pair_piece url_decode_plain)

lemma URLSearchParams_pairs:
  assumes "list_all plain_pair ps" and "ps \<noteq> []"
  shows "URLSearchParams (CHR ''?'' # join ''&'' (map pair_text ps)) = ps"
proof -
  have amp: "\<forall>t \<in> set (map pair_text ps). CHR ''&'' \<notin> set t"
    using assms(1)
    by (auto simp add: list_all_iff plain_pair_def pair_text_def dest: plain_no_amp)
  have sp: "split_on CHR ''&'' (join ''&'' (map pair_text ps)) = map pair_text ps"
    using split_on_join [of "map pair_text ps" "CHR ''&''"] amp assms(2) by simp
  have ne: "filter (\<lambda>b. b \<noteq> []) (map pair_text ps) = map pair_text ps"
    by (induction ps) (simp_all add: pair_text_nonempty)
  have "map (\<lambda>b. (url_decode (fst (split_pair b)), url_decode (snd (split_pair b))))
          (map pair_text ps) = ps"
    using assms(1) by (induction ps) (simp_all add: parse_pair_text)
  then show ?thesis by (simp add: URLSearchParams_def sp ne)
qed

lemma plain_key_name:
  "plain_key (fst kv) \<Longrightarrow> plain (name_of kv) \<and> CHR ''='' \<notin> set (name_of kv)"
  by (cases "snd kv") (auto simp add: plain_key_def plain_def name_of_def list_all_iff)

lemma plain_pairs: "codable q \<Longrightarrow> list_all plain_pair (pairs q)"
proof (induction q)
  case Nil
  show ?case by (simp add: pairs_def)
next
  case (Cons kv q)
  then have IH: "list_all plain_pair (pairs q)" by (simp add: codable_def)
  from Cons.prems have k: "plain_key (fst kv)" and st: "list_all stable (elems (snd kv))"
    by (simp_all add: codable_def)
  have "list_all plain_pair (piece_pairs kv)"
    using st plain_key_name [OF k]
    by (simp add: piece_pairs_def list_all_iff plain_pair_def stable_plain)
  with IH show ?case by (simp add: pairs_def)
qed

subsection \<open>Names and keys\<close>

lemma strip_brackets_plain: "CHR ''['' \<notin> set k \<Longrightarrow> strip_brackets k = k"
  by (induction k rule: strip_brackets.induct) auto

lemma strip_brackets_suffix: "CHR ''['' \<notin> set k \<Longrightarrow> strip_brackets (k @ ''[]'') = k"
proof (induction k)
  case Nil
  show ?case by simp
next
  case (Cons a k)
  then have "strip_brackets (k @ ''[]'') = k" by simp
  moreover obtain b cs where "k @ ''[]'' = b # cs" by (cases k) auto
  ultimately show ?case using Cons.prems by auto
qed

lemma plain_key_bracket: "plain_key k \<Longrightarrow> CHR ''['' \<notin> set k"
  by (auto simp add: plain_key_def list_all_iff)

lemma strip_name_of: "plain_key (fst kv) \<Longrightarrow> strip_brackets (name_of kv) = fst kv"
  by (cases "snd kv")
    (simp_all add: name_of_def strip_brackets_plain strip_brackets_suffix plain_key_bracket)

lemma name_of_inj:
  assumes "plain_key (fst kv)" and "plain_key (fst kv')" and "name_of kv = name_of kv'"
  shows "fst kv = fst kv'"
proof -
  have "strip_brackets (name_of kv) = strip_brackets (name_of kv')" using assms(3) by simp
  then show ?thesis using assms(1,2) by (simp add: strip_name_of)
qed

lemma codable_Cons:
  "codable (kv # q) =
     (fst kv \<notin> fst ` set q \<and> plain_key (fst kv) \<and> list_all stable (elems (snd kv)) \<and> codable q)"
  by (auto simp add: codable_def)

lemma codable_key: "codable q \<Longrightarrow> kv \<in> set q \<Longrightarrow> plain_key (fst kv)"
  by (auto simp add: codable_def list_all_iff)

lemma pairs_Nil: "pairs [] = []"
  by (simp add: pairs_def)

lemma pairs_Cons: "pairs (kv # q) = piece_pairs kv @ pairs q"
  by (simp add: pairs_def)

lemma pairs_append: "pairs (q1 @ q2) = pairs q1 @ pairs q2"
  by (simp add: pairs_def)

lemma getAll_Nil: "getAll [] n = []"
  by (simp add: getAll_def)

lemma getAll_append: "getAll (ps @ ps') n = getAll ps n @ getAll ps' n"
  by (simp add: getAll_def)

lemma getAll_piece_same: "getAll (piece_pairs kv) (name_of kv) = map to_string (elems (snd kv))"
  by (simp add: getAll_def piece_pairs_def comp_def)

lemma getAll_piece_other: "name_of kv' \<noteq> n \<Longrightarrow> getAll (piece_pairs kv') n = []"
  by (simp add: getAll_def piece_pairs_def)

lemma getAll_pairs_other:
  assumes "\<forall>kv' \<in> set q. name_of kv' \<noteq> n"
  shows "getAll (pairs q) n = []"
  using assms
  by (induction q) (simp_all add: pairs_Nil pairs_Cons getAll_append getAll_piece_other getAll_Nil)

lemma other_names:
  assumes "plain_key (fst kv)" and "\<forall>kv' \<in> set q. plain_key (fst kv')"
    and "fst kv \<notin> fst ` set q"
  shows "\<forall>kv' \<in> set q. name_of kv' \<noteq> name_of kv"
proof
  fix kv' assume in_q: "kv' \<in> set q"
  show "name_of kv' \<noteq> name_of kv"
  proof
    assume "name_of kv' = name_of kv"
    then have "fst kv' = fst kv"
      using assms(1,2) in_q by (intro name_of_inj) auto
    moreover from in_q have "fst kv' \<in> fst ` set q" by (rule imageI)
    ultimately show False using assms(3) by simp
  qed
qed

lemma getAll_pairs:
  assumes c: "codable (q1 @ kv # q2)"
  shows "getAll (pairs (q1 @ kv # q2)) (name_of kv) = map to_string (elems (snd kv))"
proof -
  have keys: "\<forall>kv' \<in> set (q1 @ kv # q2). plain_key (fst kv')"
    using c by (auto simp add: codable_def list_all_iff)
  have d: "distinct (map fst (q1 @ kv # q2))" using c by (simp add: codable_def)
  have n1: "\<forall>kv' \<in> set q1. name_of kv' \<noteq> name_of kv"
    using keys d by (intro other_names) auto
  have n2: "\<forall>kv' \<in> set q2. name_of kv' \<noteq> name_of kv"
    using keys d by (intro other_names) auto
  have "pairs (q1 @ kv # q2) = pairs q1 @ piece_pairs kv @ pairs q2"
    by (simp add: pairs_append pairs_Cons)
  then show ?thesis
    by (simp add: getAll_append getAll_pairs_other [OF n1] getAll_pairs_other [OF n2]
        getAll_piece_same)
qed

subsection \<open>Collecting the pairs\<close>

lemma collect_present:
  "map_of acc (strip_brackets n) \<noteq> None \<Longrightarrow>
   foldl (collect ps) acc (map (\<lambda>a. (n, f a)) xs) = acc"
  by (induction xs) (simp_all add: collect_def)

lemma collect_piece:
  assumes k: "plain_key (fst kv)" and new: "map_of acc (fst kv) = None"
    and ne: "elems (snd kv) \<noteq> []"
  shows "foldl (collect ps) acc (piece_pairs kv)
         = acc @ [(fst kv, Arr (map convert (getAll ps (name_of kv))))]"
proof -
  from ne obtain a xs where e: "elems (snd kv) = a # xs" by (cases "elems (snd kv)") auto
  have s: "strip_brackets (name_of kv) = fst kv" using k by (rule strip_name_of)
  define acc' where "acc' = acc @ [(fst kv, Arr (map convert (getAll ps (name_of kv))))]"
  have first: "collect ps acc (name_of kv, to_string a) = acc'"
    using new by (simp add: collect_def s acc'_def)
  have "map_of acc' (strip_brackets (name_of kv)) \<noteq> None"
    by (simp add: acc'_def s new map_add_def)
  then have "foldl (collect ps) acc' (map (\<lambda>a. (name_of kv, to_string a)) xs) = acc'"
    by (rule collect_present)
  then show ?thesis by (simp add: piece_pairs_def e first acc'_def)
qed

lemma elems_empty: "(elems v = []) = (v = Arr [])"
  by (cases v) (simp_all add: elems_def)

lemma as_lists_snoc:
  "as_lists (q @ [kv]) =
     as_lists q @ (if snd kv = Arr [] then [] else [(fst kv, Arr (elems (snd kv)))])"
  by (simp add: as_lists_def)

lemma map_of_as_lists: "k \<notin> fst ` set q \<Longrightarrow> map_of (as_lists q) k = None"
  by (induction q) (auto simp add: as_lists_def)

lemma collect_all:
  "codable (q1 @ q2) \<Longrightarrow>
   foldl (collect (pairs (q1 @ q2))) (as_lists q1) (pairs q2) = as_lists (q1 @ q2)"
proof (induction q2 arbitrary: q1)
  case Nil
  show ?case by (simp add: pairs_Nil)
next
  case (Cons kv q2)
  let ?ps = "pairs (q1 @ kv # q2)"
  have c: "codable (q1 @ kv # q2)" using Cons.prems .
  then have k: "plain_key (fst kv)" by (rule codable_key) simp
  from c have new: "fst kv \<notin> fst ` set q1" by (auto simp add: codable_def)
  from c have st: "list_all stable (elems (snd kv))" by (simp add: codable_def)
  have step: "foldl (collect ?ps) (as_lists q1) (piece_pairs kv) = as_lists (q1 @ [kv])"
  proof (cases "snd kv = Arr []")
    case True
    then show ?thesis by (simp add: piece_pairs_def elems_def as_lists_snoc)
  next
    case False
    then have ne: "elems (snd kv) \<noteq> []" by (simp add: elems_empty)
    have "foldl (collect ?ps) (as_lists q1) (piece_pairs kv)
          = as_lists q1 @ [(fst kv, Arr (map convert (getAll ?ps (name_of kv))))]"
      using k map_of_as_lists [OF new] ne by (rule collect_piece)
    also have "getAll ?ps (name_of kv) = map to_string (elems (snd kv))"
      using c by (rule getAll_pairs)
    also have "map convert (map to_string (elems (snd kv))) = elems (snd kv)"
      using st by (rule stable_map_convert)
    finally show ?thesis using False by (simp add: as_lists_snoc)
  qed
  have "foldl (collect ?ps) (as_lists q1) (pairs (kv # q2))
        = foldl (collect ?ps) (as_lists (q1 @ [kv])) (pairs q2)"
    by (simp add: pairs_Cons step)
  also have "\<dots> = as_lists ((q1 @ [kv]) @ q2)"
    using Cons.IH [of "q1 @ [kv]"] c by simp
  finally show ?case by simp
qed

lemma pairs_empty: "(pairs q = []) = (as_lists q = [])"
  by (induction q) (auto simp add: pairs_def as_lists_def piece_pairs_def elems_empty)

lemma as_lists_lists_only: "lists_only q \<Longrightarrow> as_lists q = q"
  by (induction q) (auto simp add: lists_only_def as_lists_def elems_def split: jsval.splits)

text \<open>
  C1, as the code has it. The decoder makes every value an array, and the encoder writes
  nothing for an empty list. So for a query with distinct plain keys and stable scalars,
  decoding the encoding (nothing omitted, no renaming) gives the query with every scalar
  \<open>v\<close> as \<open>[v]\<close> and without the keys of empty lists, or \<^verbatim>\<open>false\<close> when nothing is left.
  It gives the query itself when every value is a non-empty list.
\<close>

theorem decode_encode:
  assumes "codable q"
  shows "buildJsonQuery [] (buildUrlQuery q (Some []) (Some []))
           = (if as_lists q = [] then None else Some (as_lists q))
       \<and> (lists_only q \<and> q \<noteq> [] \<longrightarrow>
            buildJsonQuery [] (buildUrlQuery q (Some []) (Some [])) = Some q)"
proof -
  have main: "buildJsonQuery [] (buildUrlQuery q (Some []) (Some []))
           = (if as_lists q = [] then None else Some (as_lists q))"
  proof (cases "pairs q = []")
    case True
    then show ?thesis
      by (simp add: buildUrlQuery_pairs buildJsonQuery_def pairs_empty)
  next
    case False
    have ps: "URLSearchParams (CHR ''?'' # join ''&'' (map pair_text (pairs q))) = pairs q"
      using plain_pairs [OF assms] False by (rule URLSearchParams_pairs)
    have "foldl (collect (pairs ([] @ q))) (as_lists []) (pairs q) = as_lists ([] @ q)"
      using assms by (intro collect_all) simp
    then have "foldl (collect (pairs q)) [] (pairs q) = as_lists q"
      by (simp add: as_lists_def)
    with False show ?thesis
      by (simp add: buildUrlQuery_pairs buildJsonQuery_def ps pairs_empty Let_def)
  qed
  then show ?thesis by (auto simp add: as_lists_lists_only)
qed

theorem decode_encode_witness:
  "buildJsonQuery [] (buildUrlQuery
       [(''colors'', Arr [Num 1, Num 22]), (''orderby'', Arr [Str ''date''])] (Some []) (Some []))
     = Some [(''colors'', Arr [Num 1, Num 22]), (''orderby'', Arr [Str ''date''])]"
proof -
  have c: "codable [(''colors'', Arr [Num 1, Num 22]), (''orderby'', Arr [Str ''date''])]"
    by (simp add: codable_def plain_key_def elems_def stable_def word_def plain_def
        is_letter_def)
  have l: "lists_only [(''colors'', Arr [Num 1, Num 22]), (''orderby'', Arr [Str ''date''])]"
    by (simp add: lists_only_def)
  from decode_encode [OF c] l show ?thesis by blast
qed

text \<open>
  The claim C1 as stated fails on the default query \<^verbatim>\<open>{page: 1, per_page: 5}\<close>: its
  scalars come back as one-element arrays.
\<close>

theorem scalars_come_back_as_lists:
  "buildUrlQuery [(''page'', Scalar (Num 1)), (''per_page'', Scalar (Num 5))] (Some []) (Some [])
     = ''?page=1&per_page=5''
   \<and> buildJsonQuery [] ''?page=1&per_page=5''
     = Some [(''page'', Arr [Num 1]), (''per_page'', Arr [Num 5])]
   \<and> buildJsonQuery [] (buildUrlQuery
         [(''page'', Scalar (Num 1)), (''per_page'', Scalar (Num 5))] (Some []) (Some []))
     \<noteq> Some [(''page'', Scalar (Num 1)), (''per_page'', Scalar (Num 5))]"
  by code_simp

section \<open>What a fetch run leaves alone\<close>

lemma query_error [simp]: "query (error e s) = query s"
  by (simp add: error_def)

lemma headers_error [simp]: "headers (error e s) = headers s"
  by (simp add: error_def)

lemma query_replaceState [simp]: "query (replaceState cfg q s) = query s"
  by (simp add: replaceState_def Let_def)

lemma headers_replaceState [simp]: "headers (replaceState cfg q s) = headers s"
  by (simp add: replaceState_def Let_def)

lemma query_process [simp]: "query (process maps d q h s) = query s"
  by (simp add: process_def Let_def split: option.splits json.splits)

lemma headers_process [simp]: "headers (process maps d q h s) = headers s"
  by (simp add: process_def Let_def split: option.splits json.splits)

lemma query_send [simp]: "query (send cfg srv maps current q s) = query s"
  by (simp add: send_def wpQuery_def response_def Let_def
      split: fetch_result.splits option.splits prod.splits)

lemma query_queue_step [simp]: "query (queue_step cfg srv maps obj1 off s) = query s"
  by (simp add: queue_step_def Let_def)

lemma query_fold_queue_step [simp]:
  "query (fold (queue_step cfg srv maps obj1) offs s) = query s"
  by (induction offs arbitrary: s) simp_all

lemma query_queue [simp]: "query (queue cfg srv maps offs s) = query s"
  by (simp add: queue_def)

lemma queue_step_skip:
  "page (query s) + off \<le> 0 \<Longrightarrow> queue_step cfg srv maps obj1 off s = s"
  by (simp add: queue_step_def Let_def)

section \<open>The page number\<close>

lemma page_updateQuery [simp]: "page (query (updateQuery tax v s)) = 1"
  by (simp add: updateQuery_def)

lemma page_filter_terms:
  "1 \<le> page (query s) \<Longrightarrow> 1 \<le> page (query (snd (filter_terms tax term s)))"
  by (simp add: filter_terms_def split: option.splits jsval.splits scalar.splits)

lemma page_filterAll:
  "1 \<le> page (query s) \<Longrightarrow> 1 \<le> page (query (snd (filterAll tax s)))"
  by (simp add: filterAll_def Let_def split: option.splits)

lemma page_click:
  "1 \<le> page (query s) \<Longrightarrow> 1 \<le> page (query (snd (click ev s)))"
  by (auto simp add: click_def Let_def page_filterAll page_filter_terms
      split: event.splits option.splits)

lemma page_reset_step: "page (query (reset_step i s)) = 1"
  by (simp add: reset_step_def Let_def)

lemma page_fold_reset:
  "1 \<le> page (query s) \<Longrightarrow> 1 \<le> page (query (fold reset_step ns s))"
  by (induction ns arbitrary: s) (simp_all add: page_reset_step)

lemma page_reset: "1 \<le> page (query s) \<Longrightarrow> 1 \<le> page (query (reset s))"
  by (simp add: reset_def page_fold_reset)

lemma page_paginate:
  "page (query (snd (paginate cfg srv maps change s))) = page (query s) + change"
  by (simp add: paginate_def Let_def split: option.splits)

text \<open>
  C3, as the code has it. From a page of at least 1, \<^verbatim>\<open>paginate\<close> with a change that
  keeps \<^verbatim>\<open>page + change\<close> at least 1 sets the page to that sum; the filter operations
  keep the page at least 1 (they set it to 1 or fail before any change); a fetch run
  never changes it, and a round whose target page is 0 or below does nothing.
\<close>

theorem page_at_least_one:
  assumes "1 \<le> page (query s)"
  shows "(1 \<le> page (query s) + change \<longrightarrow>
            page (query (snd (paginate cfg srv maps change s))) = page (query s) + change
          \<and> 1 \<le> page (query (snd (paginate cfg srv maps change s))))
       \<and> 1 \<le> page (query (snd (click ev s)))
       \<and> 1 \<le> page (query (snd (toggle tax s)))
       \<and> 1 \<le> page (query (reset s))
       \<and> page (query (updateQuery tax v s)) = 1
       \<and> page (query (queue cfg srv maps offs s)) = page (query s)
       \<and> (page (query s) + off \<le> 0 \<longrightarrow> queue_step cfg srv maps obj1 off s = s)"
  using assms
  by (simp add: page_paginate page_click page_filterAll toggle_def page_reset queue_step_skip)

theorem page_at_least_one_witness:
  "1 \<le> page (query (wp defaults (paged_server ''12'' ''3'') (\<lambda>x. x) initial))
   \<and> page (query (snd (paginate defaults (paged_server ''12'' ''3'') (\<lambda>x. x) 1
          (wp defaults (paged_server ''12'' ''3'') (\<lambda>x. x) initial)))) = 2"
proof -
  have h: "1 \<le> page (query (wp defaults (paged_server ''12'' ''3'') (\<lambda>x. x) initial))"
    by (simp add: wp_def initial_def)
  have p: "page (query (wp defaults (paged_server ''12'' ''3'') (\<lambda>x. x) initial)) + 1 = 2"
    by (simp add: wp_def initial_def)
  then have c: "1 \<le> page (query (wp defaults (paged_server ''12'' ''3'') (\<lambda>x. x) initial)) + 1"
    by simp
  from page_at_least_one [OF h, where change = 1 and cfg = defaults
      and srv = "paged_server ''12'' ''3''" and maps = "\<lambda>x. x"] c
  have "page (query (snd (paginate defaults (paged_server ''12'' ''3'') (\<lambda>x. x) 1
          (wp defaults (paged_server ''12'' ''3'') (\<lambda>x. x) initial))))
        = page (query (wp defaults (paged_server ''12'' ''3'') (\<lambda>x. x) initial)) + 1"
    by blast
  with h p show ?thesis by simp
qed

text \<open>
  The claim C3 as stated fails: from page 1 of a loaded three-page collection,
  \<^verbatim>\<open>paginate\<close> with the amount -1 leaves the query on page 0 (and throws on the absent
  entry 0).
\<close>

theorem paginate_below_one:
  "page (query (wp defaults (paged_server ''12'' ''3'') (\<lambda>x. x) initial)) = 1
   \<and> fst (paginate defaults (paged_server ''12'' ''3'') (\<lambda>x. x) (- 1)
          (wp defaults (paged_server ''12'' ''3'') (\<lambda>x. x) initial)) = Some TypeError
   \<and> page (query (snd (paginate defaults (paged_server ''12'' ''3'') (\<lambda>x. x) (- 1)
          (wp defaults (paged_server ''12'' ''3'') (\<lambda>x. x) initial)))) = 0"
  by code_simp

section \<open>The loading flag\<close>

lemma loading_value:
  assumes "posts s = [] \<or> \<not> init s \<or> posts_at (posts s) (page (query s)) = Some p"
  shows "loading s = Inr (posts s \<noteq> [] \<and> init s \<and> no_length (p_posts p) \<and> p_show p)"
  using assms by (auto simp add: loading_def)

lemma loading_throws:
  "loading s = Inl TypeError \<longleftrightarrow>
     posts s \<noteq> [] \<and> init s \<and> posts_at (posts s) (page (query s)) = None"
  by (simp add: loading_def split: option.splits)

text \<open>
  C6 at a state the component reaches: a one-page collection is loaded, then
  \<^verbatim>\<open>paginate\<close> is called with the amount 1. The store is not empty, the component is
  initialised and there is no entry at the new page 2: \<^verbatim>\<open>loading\<close> reads \<^verbatim>\<open>page.posts\<close> of
  \<^verbatim>\<open>undefined\<close> and throws, where the claim has it defined.
\<close>

theorem loading_absent_entry:
  "init (snd (paginate defaults (paged_server ''2'' ''1'') (\<lambda>x. x) 1
                (wp defaults (paged_server ''2'' ''1'') (\<lambda>x. x) initial)))
   \<and> length (posts (snd (paginate defaults (paged_server ''2'' ''1'') (\<lambda>x. x) 1
                (wp defaults (paged_server ''2'' ''1'') (\<lambda>x. x) initial)))) = 2
   \<and> page (query (snd (paginate defaults (paged_server ''2'' ''1'') (\<lambda>x. x) 1
                (wp defaults (paged_server ''2'' ''1'') (\<lambda>x. x) initial)))) = 2
   \<and> loading (snd (paginate defaults (paged_server ''2'' ''1'') (\<lambda>x. x) 1
                  (wp defaults (paged_server ''2'' ''1'') (\<lambda>x. x) initial)))
       = Inl TypeError"
  by code_simp

section \<open>Filter operations\<close>

subsection \<open>Taxonomies under a click\<close>

lemma terms_updateQuery [simp]: "terms (updateQuery tax v s) = terms s"
  by (simp add: updateQuery_def)

lemma find_index_Some:
  "find_index P xs = Some k \<Longrightarrow> k < length xs \<and> P (xs ! k)"
  by (induction xs arbitrary: k) (auto split: if_splits)

lemma find_index_map: "find_index (\<lambda>t. P (f t)) xs = find_index P (map f xs)"
  by (induction xs) simp_all

lemma length_flip_checked [simp]: "length (flip_checked ts i j) = length ts"
  by (simp add: flip_checked_def)

lemma slugs_flip_checked: "map t_slug (flip_checked ts i j) = map t_slug ts"
  by (cases "i < length ts")
    (simp_all add: flip_checked_def map_update list_update_same_conv list_update_beyond)

lemma find_flip_checked:
  "find_index (\<lambda>t. t_slug t = x) (flip_checked ts i j) = find_index (\<lambda>t. t_slug t = x) ts"
proof -
  have "find_index (\<lambda>t. t_slug t = x) (flip_checked ts i j)
        = find_index (\<lambda>u. u = x) (map t_slug (flip_checked ts i j))"
    by (rule find_index_map)
  also have "\<dots> = find_index (\<lambda>u. u = x) (map t_slug ts)"
    by (simp add: slugs_flip_checked)
  also have "\<dots> = find_index (\<lambda>t. t_slug t = x) ts"
    by (rule find_index_map [symmetric])
  finally show ?thesis .
qed

lemma filters_set_checked: "map t_filters (set_checked ts k) = map t_filters ts"
  by (cases "k < length ts")
    (simp_all add: set_checked_def map_update list_update_same_conv list_update_beyond)

lemma slugs_set_checked: "map t_slug (set_checked ts k) = map t_slug ts"
  by (cases "k < length ts")
    (simp_all add: set_checked_def map_update list_update_same_conv list_update_beyond)

lemma terms_filter_terms [simp]: "terms (snd (filter_terms tax term s)) = terms s"
  by (simp add: filter_terms_def split: option.splits jsval.splits scalar.splits)

lemma terms_click:
  assumes "filter_of (terms s) i j = Some f" and "f_id f \<noteq> 0"
  shows "terms (snd (click (OnFilter i j) s)) = clicked (terms s) i j (f_parent f)"
  using assms
  by (simp add: click_def Let_def clicked_def set_checked_def find_flip_checked
      split: option.splits)

lemma filters_clicked:
  "map t_filters (clicked ts i j parent) = map t_filters (flip_checked ts i j)"
  by (simp add: clicked_def filters_set_checked split: option.splits)

lemma filter_of_filters:
  "map t_filters ts = map t_filters ts' \<Longrightarrow> filter_of ts i j = filter_of ts' i j"
proof -
  assume eq: "map t_filters ts = map t_filters ts'"
  then have len: "length ts = length ts'" by (rule map_eq_imp_length_eq)
  have "i < length ts \<Longrightarrow> t_filters (ts ! i) = t_filters (ts' ! i)"
    using eq len by (metis nth_map)
  with len show ?thesis by (auto simp add: filter_of_def)
qed

lemma flipf_flipf [simp]: "flipf (flipf f) = f"
  by (simp add: flipf_def)

lemma filters_flip_checked:
  "i < length ts \<Longrightarrow>
   map t_filters (flip_checked ts i j)
     = (map t_filters ts)[i := (t_filters (ts ! i))[j := flipf (t_filters (ts ! i) ! j)]]"
  by (simp add: flip_checked_def map_update flipf_def)

lemma filters_flip_twice:
  assumes i: "i < length ts" and j: "j < length (t_filters (ts ! i))"
    and eq: "map t_filters ts' = map t_filters (flip_checked ts i j)"
  shows "map t_filters (flip_checked ts' i j) = map t_filters ts"
proof -
  let ?F = "t_filters (ts ! i)"
  from eq have len: "length ts' = length ts"
    using map_eq_imp_length_eq by fastforce
  have eq': "map t_filters ts' = (map t_filters ts)[i := ?F[j := flipf (?F ! j)]]"
    using eq i by (simp add: filters_flip_checked)
  have "t_filters (ts' ! i) = (map t_filters ts') ! i"
    using i len by simp
  also have "\<dots> = ?F[j := flipf (?F ! j)]"
    using i by (simp add: eq')
  finally have Fi: "t_filters (ts' ! i) = ?F[j := flipf (?F ! j)]" .
  have "map t_filters (flip_checked ts' i j)
        = (map t_filters ts')[i := (t_filters (ts' ! i))[j := flipf (t_filters (ts' ! i) ! j)]]"
    using i len by (simp add: filters_flip_checked)
  also have "\<dots> = (map t_filters ts)[i := ?F[j := ?F ! j]]"
    using j by (simp add: eq' Fi)
  also have "\<dots> = map t_filters ts"
    using i by (simp add: list_update_same_conv)
  finally show ?thesis .
qed

text \<open>
  C7, as the code has it. \<^verbatim>\<open>click\<close> toggles one filter only when \<^verbatim>\<open>event.data.id\<close> is
  truthy. For a filter of the taxonomy list with a non-zero id, two clicks on it give
  every filter of every taxonomy its checked state back, so the filter is as it was and
  the derived \<^verbatim>\<open>checked\<close> of its taxonomy is the original one; the \<^verbatim>\<open>checked\<close> stored on
  the taxonomy that \<^verbatim>\<open>find\<close> yields for the parent slug is that derived value.
\<close>

theorem click_twice:
  assumes f: "filter_of (terms s) i j = Some f" and id: "f_id f \<noteq> 0"
  shows "map t_filters (terms (snd (click (OnFilter i j) (snd (click (OnFilter i j) s)))))
          = map t_filters (terms s)
       \<and> filter_of (terms (snd (click (OnFilter i j) (snd (click (OnFilter i j) s))))) i j = Some f
       \<and> all_checked (t_filters (terms (snd (click (OnFilter i j) (snd (click (OnFilter i j) s)))) ! i))
            = all_checked (t_filters (terms s ! i))
       \<and> (find_index (\<lambda>t. t_slug t = f_parent f) (terms s) = Some k \<longrightarrow>
            t_checked (terms (snd (click (OnFilter i j) (snd (click (OnFilter i j) s)))) ! k)
              = Some (all_checked (t_filters (terms s ! k))))"
proof -
  define s1 where "s1 = snd (click (OnFilter i j) s)"
  define s2 where "s2 = snd (click (OnFilter i j) s1)"
  from f have i: "i < length (terms s)" and j: "j < length (t_filters (terms s ! i))"
    and fv: "f = t_filters (terms s ! i) ! j"
    by (auto simp add: filter_of_def split: if_splits)
  have t1: "terms s1 = clicked (terms s) i j (f_parent f)"
    unfolding s1_def using f id by (rule terms_click)
  have F1: "map t_filters (terms s1) = map t_filters (flip_checked (terms s) i j)"
    by (simp add: t1 filters_clicked)
  have f1: "filter_of (terms s1) i j = Some (flipf f)"
  proof -
    have "filter_of (terms s1) i j = filter_of (flip_checked (terms s) i j) i j"
      using F1 by (rule filter_of_filters)
    also have "\<dots> = Some (flipf f)"
      using i j fv by (simp add: filter_of_def flip_checked_def flipf_def)
    finally show ?thesis .
  qed
  have id1: "f_id (flipf f) \<noteq> 0" and par1: "f_parent (flipf f) = f_parent f"
    using id by (simp_all add: flipf_def)
  have t2: "terms s2 = clicked (terms s1) i j (f_parent f)"
    unfolding s2_def using terms_click [OF f1 id1] par1 by simp
  have F2: "map t_filters (terms s2) = map t_filters (terms s)"
  proof -
    have "map t_filters (terms s2) = map t_filters (flip_checked (terms s1) i j)"
      by (simp add: t2 filters_clicked)
    also have "\<dots> = map t_filters (terms s)"
      using i j F1 by (rule filters_flip_twice)
    finally show ?thesis .
  qed
  have f2: "filter_of (terms s2) i j = Some f"
    using filter_of_filters [OF F2] f by simp
  have c2: "t_checked (terms s2 ! k) = Some (all_checked (t_filters (terms s ! k)))"
    if k: "find_index (\<lambda>t. t_slug t = f_parent f) (terms s) = Some k"
  proof -
    from k have kl: "k < length (terms s)" by (simp add: find_index_Some)
    have slugs1: "map t_slug (terms s1) = map t_slug (terms s)"
      by (simp add: t1 clicked_def slugs_set_checked slugs_flip_checked split: option.splits)
    have "find_index (\<lambda>t. t_slug t = f_parent f) (terms s1)
          = find_index (\<lambda>u. u = f_parent f) (map t_slug (terms s1))"
      by (rule find_index_map)
    also have "\<dots> = find_index (\<lambda>t. t_slug t = f_parent f) (terms s)"
      by (simp add: slugs1 find_index_map [symmetric])
    finally have k1: "find_index (\<lambda>t. t_slug t = f_parent f) (terms s1) = Some k"
      using k by simp
    have len1: "length (terms s1) = length (terms s)"
      using slugs1 map_eq_imp_length_eq by blast
    have t2': "terms s2 = set_checked (flip_checked (terms s1) i j) k"
      by (simp add: t2 clicked_def k1)
    have "t_checked (terms s2 ! k)
          = Some (all_checked (t_filters (flip_checked (terms s1) i j ! k)))"
      using kl len1 by (simp add: t2' set_checked_def)
    also have "t_filters (flip_checked (terms s1) i j ! k)
               = map t_filters (flip_checked (terms s1) i j) ! k"
      using kl len1 by simp
    also have "map t_filters (flip_checked (terms s1) i j) = map t_filters (terms s)"
      using i j F1 by (rule filters_flip_twice)
    also have "map t_filters (terms s) ! k = t_filters (terms s ! k)"
      using kl by simp
    finally show ?thesis .
  qed
  have d2: "all_checked (t_filters (terms s2 ! i)) = all_checked (t_filters (terms s ! i))"
  proof -
    have len: "length (terms s2) = length (terms s)"
      using F2 map_eq_imp_length_eq by blast
    have "t_filters (terms s2 ! i) = map t_filters (terms s2) ! i"
      using i len by simp
    also have "\<dots> = t_filters (terms s ! i)"
      using i by (simp add: F2)
    finally show ?thesis by simp
  qed
  show ?thesis
    using F2 f2 c2 d2 by (simp add: s1_def s2_def)
qed

theorem click_twice_witness:
  "filter_of (terms with_colors) 0 0
     = Some \<lparr>f_id = 1, f_parent = ''colors'', f_active = False, f_checked = False\<rparr>
   \<and> filter_of (terms (snd (click (OnFilter 0 0) with_colors))) 0 0
     = Some \<lparr>f_id = 1, f_parent = ''colors'', f_active = False, f_checked = True\<rparr>
   \<and> filter_of (terms (snd (click (OnFilter 0 0) (snd (click (OnFilter 0 0) with_colors))))) 0 0
     = Some \<lparr>f_id = 1, f_parent = ''colors'', f_active = False, f_checked = False\<rparr>
   \<and> t_checked (terms (snd (click (OnFilter 0 0) (snd (click (OnFilter 0 0) with_colors)))) ! 0)
     = Some False"
proof -
  have f: "filter_of (terms with_colors) 0 0
     = Some \<lparr>f_id = 1, f_parent = ''colors'', f_active = False, f_checked = False\<rparr>"
    by code_simp
  have f1: "filter_of (terms (snd (click (OnFilter 0 0) with_colors))) 0 0
     = Some \<lparr>f_id = 1, f_parent = ''colors'', f_active = False, f_checked = True\<rparr>"
    by code_simp
  have id: "f_id \<lparr>f_id = 1, f_parent = ''colors'', f_active = False, f_checked = False\<rparr> \<noteq> 0"
    by simp
  have k: "find_index (\<lambda>t. t_slug t = ''colors'') (terms with_colors) = Some 0"
    by code_simp
  have d: "all_checked (t_filters (terms with_colors ! 0)) = False"
    by code_simp
  from click_twice [OF f id, where k = 0] k d f f1 show ?thesis by simp
qed

text \<open>
  The claim C7 as stated fails for a filter with the id 0: \<^verbatim>\<open>event.data.id || false\<close> is
  \<^verbatim>\<open>false\<close>, so each click is \<^verbatim>\<open>filterAll\<close>. The first click checks both filters, the
  second unchecks both, and the filter that was checked is not.
\<close>

theorem click_twice_zero_id:
  "map_option (\<lambda>f. f_id f) (filter_of (terms zero_id) 0 0) = Some 0
   \<and> map (\<lambda>f. f_checked f) (t_filters (terms zero_id ! 0)) = [True, False]
   \<and> map (\<lambda>f. f_checked f) (t_filters (terms (snd (click (OnFilter 0 0) zero_id)) ! 0))
       = [True, True]
   \<and> map (\<lambda>f. f_checked f)
        (t_filters (terms (snd (click (OnFilter 0 0) (snd (click (OnFilter 0 0) zero_id)))) ! 0))
       = [False, False]
   \<and> map_option (\<lambda>f. f_checked f)
        (filter_of (terms (snd (click (OnFilter 0 0) (snd (click (OnFilter 0 0) zero_id))))) 0 0)
       \<noteq> map_option (\<lambda>f. f_checked f) (filter_of (terms zero_id) 0 0)"
  by code_simp

subsection \<open>Hiding the pages\<close>

lemma hidden_hide: "hidden (map (map_option (\<lambda>p. p\<lparr>p_show := False\<rparr>)) ps)"
  by (induction ps) (auto simp add: hidden_def split: option.splits)

lemma snapshots_hide:
  "snapshots (map (map_option (\<lambda>p. p\<lparr>p_show := False\<rparr>)) ps) = snapshots ps"
proof -
  have "map_option p_query (map_option (\<lambda>p. p\<lparr>p_show := False\<rparr>) e) = map_option p_query e"
    for e :: "'a page_entry option"
    by (cases e) simp_all
  then show ?thesis by (simp add: snapshots_def)
qed

lemma hides_all_updateQuery: "hides_all s (updateQuery tax v s)"
  by (simp add: hides_all_def updateQuery_def hidden_hide snapshots_hide)

lemma hides_all_terms: "hides_all (s\<lparr>terms := ts\<rparr>) s' = hides_all s s'"
  by (simp add: hides_all_def)

lemma hides_all_terms': "hides_all s s' \<Longrightarrow> hides_all s (s'\<lparr>terms := ts\<rparr>)"
  by (simp add: hides_all_def)

lemma hides_all_trans: "hides_all s s1 \<Longrightarrow> hides_all s1 s2 \<Longrightarrow> hides_all s s2"
  by (simp add: hides_all_def)

lemma hides_all_filter_terms:
  "fst (filter_terms tax term s) = None \<Longrightarrow> hides_all s (snd (filter_terms tax term s))"
  by (auto simp add: filter_terms_def hides_all_updateQuery
      split: option.splits jsval.splits scalar.splits if_splits)

lemma hides_all_filterAll:
  "fst (filterAll tax s) = None \<Longrightarrow> hides_all s (snd (filterAll tax s))"
proof (cases "find_index (\<lambda>t. t_slug t = tax) (terms s)")
  case None
  assume "fst (filterAll tax s) = None"
  with None show ?thesis by (simp add: filterAll_def)
next
  case (Some k)
  have "hides_all (s\<lparr>terms := ts\<rparr>) (updateQuery tax v (s\<lparr>terms := ts\<rparr>))" for ts v
    by (rule hides_all_updateQuery)
  then have "hides_all s (updateQuery tax v (s\<lparr>terms := ts\<rparr>))" for ts v
    by (simp add: hides_all_terms)
  with Some show ?thesis by (simp add: filterAll_def Let_def)
qed

lemma hides_all_click:
  assumes "filter_of (terms s) i j \<noteq> None" and "fst (click (OnFilter i j) s) = None"
  shows "hides_all s (snd (click (OnFilter i j) s))"
proof -
  from assms(1) obtain f where f: "filter_of (terms s) i j = Some f" by auto
  show ?thesis
  proof (cases "f_id f = 0")
    case True
    with f assms(2) show ?thesis by (simp add: click_def hides_all_filterAll)
  next
    case False
    show ?thesis
    proof (cases "find_index (\<lambda>t. t_slug t = f_parent f) (flip_checked (terms s) i j)")
      case None
      with f False assms(2) show ?thesis by (simp add: click_def Let_def)
    next
      case (Some k)
      define s2 where "s2 = s\<lparr>terms := set_checked (flip_checked (terms s) i j) k\<rparr>"
      have c: "click (OnFilter i j) s = filter_terms (f_parent f) (f_id f) s2"
        using f False Some by (simp add: click_def Let_def s2_def)
      with assms(2) have "hides_all s2 (snd (filter_terms (f_parent f) (f_id f) s2))"
        by (simp add: hides_all_filter_terms)
      then show ?thesis using c by (simp add: s2_def hides_all_terms)
    qed
  qed
qed

lemma hides_all_reset_step: "hides_all s (reset_step i s)"
  by (simp add: reset_step_def Let_def hides_all_terms' hides_all_updateQuery)

lemma hides_all_fold_reset:
  "hides_all s s1 \<Longrightarrow> hides_all s (fold reset_step ns s1)"
proof (induction ns arbitrary: s1)
  case Nil
  then show ?case by simp
next
  case (Cons n ns)
  have "hides_all s (reset_step n s1)"
    using Cons.prems hides_all_reset_step hides_all_trans by blast
  then show ?case using Cons.IH by simp
qed

lemma hides_all_reset: "terms s \<noteq> [] \<Longrightarrow> hides_all s (reset s)"
proof -
  assume "terms s \<noteq> []"
  then have "[0..<length (terms s)] = 0 # [1..<length (terms s)]"
    by (simp add: upt_conv_Cons)
  then have "reset s = fold reset_step [1..<length (terms s)] (reset_step 0 s)"
    by (simp add: reset_def)
  then show ?thesis
    by (simp add: hides_all_fold_reset hides_all_reset_step)
qed

text \<open>
  C4, as the code has it. \<^verbatim>\<open>updateQuery\<close> sets the page to 1 and hides every entry of
  the store; it removes none and changes no snapshot. So after a click on a filter, a
  toggle of a taxonomy (each when it does not throw) or a reset with at least one
  taxonomy, the page is 1, every entry is hidden and the snapshots are the ones from
  before; the fetch run that follows leaves the page at 1.
\<close>

theorem filters_hide_pages:
  "hides_all s (updateQuery tax v s)
   \<and> page (query (wp cfg srv maps (updateQuery tax v s))) = 1
   \<and> (filter_of (terms s) i j \<noteq> None \<and> fst (click (OnFilter i j) s) = None \<longrightarrow>
        hides_all s (snd (click (OnFilter i j) s)))
   \<and> (fst (toggle tax s) = None \<longrightarrow> hides_all s (snd (toggle tax s)))
   \<and> (terms s \<noteq> [] \<longrightarrow> hides_all s (reset s))"
  by (simp add: hides_all_updateQuery hides_all_click toggle_def hides_all_filterAll
      hides_all_reset wp_def)

theorem filters_hide_pages_witness:
  "fst (click (OnFilter 0 0) three_pages) = None
   \<and> hides_all three_pages (snd (click (OnFilter 0 0) three_pages))
   \<and> fst (toggle ''colors'' three_pages) = None
   \<and> hides_all three_pages (snd (toggle ''colors'' three_pages))
   \<and> hides_all three_pages (reset three_pages)"
proof -
  have f: "filter_of (terms three_pages) 0 0 \<noteq> None" by code_simp
  have c: "fst (click (OnFilter 0 0) three_pages) = None" by code_simp
  have t: "fst (toggle ''colors'' three_pages) = None" by code_simp
  have n: "terms three_pages \<noteq> []" by code_simp
  from filters_hide_pages [where s = three_pages and i = 0 and j = 0 and tax = "''colors''"]
    f c t n
  show ?thesis by blast
qed

text \<open>
  The claim C4 as stated fails: with pages 1 to 3 in the store, a click on a filter and
  the fetch run after it (which stores pages 1 and 2 anew) leave the entry of page 3
  with the snapshot of the query before the click.
\<close>

theorem stale_page_kept:
  "others (query (wp defaults (paged_server ''4'' ''2'') (\<lambda>x. x)
                    (snd (click (OnFilter 0 0) three_pages))))
     = [(''per_page'', Scalar (Num 5)), (''colors'', Arr [Num 1])]
   \<and> map_option (\<lambda>p. others (p_query p))
        (posts_at (posts (wp defaults (paged_server ''4'' ''2'') (\<lambda>x. x)
                           (snd (click (OnFilter 0 0) three_pages)))) 3)
     = Some [(''per_page'', Scalar (Num 5))]"
  by code_simp

subsection \<open>The empty list of terms\<close>

lemma query_get_updateQuery:
  "tax \<noteq> ''page'' \<Longrightarrow> query_get (query (updateQuery tax v s)) tax = Some v"
  by (simp add: updateQuery_def query_get_def update_conv')

lemma filter_terms_last:
  assumes "query_get (query s) tax = Some (Arr ts)" and "Num term \<in> set ts"
    and "filter (\<lambda>el. el \<noteq> Num term) ts = []"
  shows "filter_terms tax term s = (None, updateQuery tax (Arr []) s)"
  using assms by (simp add: filter_terms_def)

lemma query_get_Arr_not_page: "query_get q tax = Some (Arr ts) \<Longrightarrow> tax \<noteq> ''page''"
  by (auto simp add: query_get_def)

lemma click_last:
  assumes f: "filter_of (terms s) i j = Some f" and id: "f_id f \<noteq> 0"
    and tax: "find_index (\<lambda>t. t_slug t = f_parent f) (terms s) \<noteq> None"
    and q: "query_get (query s) (f_parent f) = Some (Arr [Num (f_id f)])"
  shows "query_get (query (snd (click (OnFilter i j) s))) (f_parent f) = Some (Arr [])"
proof -
  from tax obtain k
    where k: "find_index (\<lambda>t. t_slug t = f_parent f) (flip_checked (terms s) i j) = Some k"
    by (auto simp add: find_flip_checked)
  have np: "f_parent f \<noteq> ''page''" using q by (rule query_get_Arr_not_page)
  show ?thesis using f id k q np
    by (simp add: click_def Let_def filter_terms_def query_get_updateQuery)
qed

lemma toggle_off:
  assumes "tax \<noteq> ''page''" and k: "find_index (\<lambda>t. t_slug t = tax) (terms s) = Some k"
    and off: "t_checked (terms (snd (toggle tax s)) ! k) = Some False"
  shows "query_get (query (snd (toggle tax s))) tax = Some (Arr [])"
proof -
  from k have "k < length (terms s)" by (simp add: find_index_Some)
  with assms show ?thesis
    by (auto simp add: toggle_def filterAll_def Let_def query_get_updateQuery
        split: option.splits)
qed

text \<open>
  C5, as the code has it. When a click unchecks the only term of a taxonomy in the
  query, or a toggle leaves the taxonomy unchecked, \<^verbatim>\<open>updateQuery\<close> is called with the
  empty array and the key stays in the query with the empty list as its value.
\<close>

theorem empty_list_is_stored:
  "(filter_of (terms s) i j = Some f \<and> f_id f \<noteq> 0
      \<and> find_index (\<lambda>t. t_slug t = f_parent f) (terms s) \<noteq> None
      \<and> query_get (query s) (f_parent f) = Some (Arr [Num (f_id f)]) \<longrightarrow>
      query_get (query (snd (click (OnFilter i j) s))) (f_parent f) = Some (Arr []))
   \<and> (tax \<noteq> ''page'' \<and> find_index (\<lambda>t. t_slug t = tax) (terms s) = Some k
      \<and> t_checked (terms (snd (toggle tax s)) ! k) = Some False \<longrightarrow>
      query_get (query (snd (toggle tax s))) tax = Some (Arr []))"
  using click_last toggle_off by blast

theorem empty_list_is_stored_witness:
  "query_get (query blue_only) ''colors'' = Some (Arr [Num 2])
   \<and> query_get (query (snd (click (OnFilter 0 1) blue_only))) ''colors'' = Some (Arr [])
   \<and> t_checked (terms (snd (toggle ''colors'' (snd (toggle ''colors'' with_colors)))) ! 0)
       = Some False
   \<and> query_get (query (snd (toggle ''colors'' (snd (toggle ''colors'' with_colors))))) ''colors''
       = Some (Arr [])"
proof -
  have f: "filter_of (terms blue_only) 0 1
           = Some \<lparr>f_id = 2, f_parent = ''colors'', f_active = False, f_checked = True\<rparr>"
    by code_simp
  have t: "find_index (\<lambda>t. t_slug t = ''colors'') (terms blue_only) \<noteq> None"
    by code_simp
  have q: "query_get (query blue_only) ''colors'' = Some (Arr [Num 2])"
    by code_simp
  have a: "query_get (query (snd (click (OnFilter 0 1) blue_only))) ''colors'' = Some (Arr [])"
    using empty_list_is_stored [where s = blue_only and i = 0 and j = 1
        and f = "\<lparr>f_id = 2, f_parent = ''colors'', f_active = False, f_checked = True\<rparr>"]
      f t q
    by simp
  have k: "find_index (\<lambda>t. t_slug t = ''colors'') (terms (snd (toggle ''colors'' with_colors)))
           = Some 0"
    by code_simp
  have c: "t_checked (terms (snd (toggle ''colors'' (snd (toggle ''colors'' with_colors)))) ! 0)
           = Some False"
    by code_simp
  have b: "query_get (query (snd (toggle ''colors'' (snd (toggle ''colors'' with_colors)))))
             ''colors'' = Some (Arr [])"
    using empty_list_is_stored [where s = "snd (toggle ''colors'' with_colors)"
        and tax = "''colors''" and k = 0] k c
    by simp
  from q a c b show ?thesis by simp
qed

text \<open>
  The claim C5 as stated fails: unchecking the only checked filter leaves
  \<^verbatim>\<open>colors: []\<close> in the query.
\<close>

theorem empty_list_kept:
  "query_get (query red_only) ''colors'' = Some (Arr [Num 1])
   \<and> fst (click (OnFilter 0 0) red_only) = None
   \<and> map (\<lambda>f. f_checked f) (t_filters (terms (snd (click (OnFilter 0 0) red_only)) ! 0))
       = [False, False]
   \<and> others (query (snd (click (OnFilter 0 0) red_only)))
       = [(''per_page'', Scalar (Num 5)), (''colors'', Arr [])]"
  by code_simp

section \<open>The page store\<close>

lemma nth_padded:
  assumes "length ps \<le> n" and "k \<le> n"
  shows "(ps @ replicate (n - length ps) None @ [Some v]) ! k
         = (if k = n then Some v else if k < length ps then ps ! k else None)"
proof (cases "k < length ps")
  case True
  with assms show ?thesis by (simp add: nth_append)
next
  case False
  show ?thesis
  proof (cases "k = n")
    case True
    with assms have "(ps @ replicate (n - length ps) None @ [Some v]) ! k
          = (replicate (n - length ps) None @ [Some v]) ! (n - length ps)"
      by (simp add: nth_append)
    also have "\<dots> = Some v"
      by (simp add: nth_append)
    finally show ?thesis using True by simp
  next
    case kn: False
    with assms False have "(ps @ replicate (n - length ps) None @ [Some v]) ! k
          = (replicate (n - length ps) None @ [Some v]) ! (k - length ps)"
      by (simp add: nth_append)
    also have "\<dots> = None"
      using assms False kn by (simp add: nth_append)
    finally show ?thesis using False kn by simp
  qed
qed

lemma length_set_at: "length (set_at ps n v) = max (length ps) (Suc n)"
  by (simp add: set_at_def)

lemma posts_at_set_at:
  "posts_at (set_at ps n v) m = (if m = int n then Some v else posts_at ps m)"
proof (cases "n < length ps")
  case True
  then show ?thesis
    by (auto simp add: posts_at_def set_at_def nth_list_update)
next
  case False
  then have le: "length ps \<le> n" by simp
  have sa: "set_at ps n v = ps @ replicate (n - length ps) None @ [Some v]"
    using False by (simp add: set_at_def)
  show ?thesis
  proof (cases "0 \<le> m \<and> nat m \<le> n")
    case True
    then have "posts_at (set_at ps n v) m = (ps @ replicate (n - length ps) None @ [Some v]) ! nat m"
      using le by (simp add: posts_at_def sa)
    also have "\<dots> = (if nat m = n then Some v else if nat m < length ps then ps ! nat m else None)"
      using le True by (simp add: nth_padded)
    also have "\<dots> = (if m = int n then Some v else posts_at ps m)"
      using True by (auto simp add: posts_at_def)
    finally show ?thesis .
  next
    case False
    then have "posts_at (set_at ps n v) m = None"
      using le by (auto simp add: posts_at_def sa)
    moreover have "posts_at ps m = None"
      using False le by (auto simp add: posts_at_def)
    moreover have "m \<noteq> int n" using False by auto
    ultimately show ?thesis by simp
  qed
qed

lemma posts_at_update_at:
  "posts_at (update_at ps i f) m =
     (if m = i then map_option f (posts_at ps m) else posts_at ps m)"
proof (cases "0 \<le> i \<and> nat i < length ps")
  case False
  then have "update_at ps i f = ps" by (auto simp add: update_at_def)
  moreover have "posts_at ps i = None" using False by (auto simp add: posts_at_def)
  ultimately show ?thesis by simp
next
  case inside: True
  then have u: "update_at ps i f = ps[nat i := map_option f (ps ! nat i)]"
    by (simp add: update_at_def)
  show ?thesis
  proof (cases "m = i")
    case True
    with inside show ?thesis
      by (simp add: u posts_at_def)
  next
    case False
    then have "0 \<le> m \<Longrightarrow> nat m \<noteq> nat i" using inside by auto
    then show ?thesis using False
      by (auto simp add: u posts_at_def nth_list_update_neq)
  qed
qed

lemma update_at_set_at:
  "update_at (set_at ps n v) (int n) f = set_at ps n (f v)"
proof (cases "n < length ps")
  case True
  then show ?thesis by (simp add: update_at_def set_at_def)
next
  case False
  then have le: "length ps \<le> n" by simp
  have "(ps @ replicate (n - length ps) None @ [Some v])[n := Some (f v)]
        = ps @ replicate (n - length ps) None @ [Some (f v)]"
    using le by (simp add: list_update_append)
  moreover have "(ps @ replicate (n - length ps) None @ [Some v]) ! n = Some v"
    using le by (simp add: nth_padded)
  ultimately show ?thesis using le by (simp add: update_at_def set_at_def)
qed

lemma posts_error [simp]: "posts (error e s) = posts s"
  by (simp add: error_def)

lemma posts_replaceState [simp]: "posts (replaceState cfg q s) = posts s"
  by (simp add: replaceState_def)

lemma posts_process:
  "posts (process maps d q h s) = posts s \<or>
   posts (process maps d q h s)
     = update_at (posts s) (page q)
         (\<lambda>p. p\<lparr>p_posts := (case d of JsonArray xs \<Rightarrow> Some (map maps xs) | JsonOther _ \<Rightarrow> None),
                 p_headers := Some h\<rparr>)"
  by (simp add: process_def Let_def split: option.splits json.splits)

lemma posts_send:
  assumes "0 \<le> page q"
  shows "\<exists>e. posts (send cfg srv maps cur q s) = set_at (posts s) (nat (page q)) e
           \<and> p_show e = (page q \<le> page (query s)) \<and> p_query e = q"
proof -
  define e0 :: "'a page_entry" where
    "e0 = \<lparr>p_posts = Some [], p_query = q, p_show = (page q \<le> page (query s)), p_headers = None\<rparr>"
  define s1 where "s1 = snd (wpQuery cfg q s)"
  have w: "wpQuery cfg q s = (request_url cfg q, s1)"
    by (simp add: wpQuery_def s1_def Let_def)
  have p1: "posts s1 = set_at (posts s) (nat (page q)) e0"
    by (simp add: s1_def wpQuery_def e0_def Let_def)
  have pq: "int (nat (page q)) = page q" using assms by simp
  have ua: "update_at (posts s1) (page q) f = set_at (posts s) (nat (page q)) (f e0)" for f
    using update_at_set_at [of "posts s" "nat (page q)" e0 f] assms by (simp add: p1)
  consider (same) "posts (send cfg srv maps cur q s) = posts s1"
    | (upd) d h where "posts (send cfg srv maps cur q s)
        = update_at (posts s1) (page q)
            (\<lambda>p. p\<lparr>p_posts := (case d of JsonArray xs \<Rightarrow> Some (map maps xs) | JsonOther _ \<Rightarrow> None),
                    p_headers := Some h\<rparr>)"
  proof (cases "srv (request_url cfg q)")
    case NetworkError
    then have "posts (send cfg srv maps cur q s) = posts s1"
      by (simp add: send_def w)
    then show ?thesis by (rule same)
  next
    case (Response r)
    show ?thesis
    proof (cases "body r")
      case None
      with Response have "posts (send cfg srv maps cur q s) = posts s1"
        by (simp add: send_def w response_def)
      then show ?thesis by (rule same)
    next
      case (Some d)
      define s2 where "s2 = snd (response r s1)"
      define s3 where "s3 = (if cur then replaceState cfg q s2 else s2)"
      have p3: "posts s3 = posts s1"
        by (simp add: s3_def s2_def response_def)
      have "send cfg srv maps cur q s = process maps d q (headers s2) s3"
        using Response Some by (simp add: send_def w response_def s2_def s3_def Let_def)
      with posts_process [of maps d q "headers s2" s3] p3 show ?thesis
        using same upd by metis
    qed
  qed
  then show ?thesis
  proof cases
    case same
    then have "posts (send cfg srv maps cur q s) = set_at (posts s) (nat (page q)) e0
        \<and> p_show e0 = (page q \<le> page (query s)) \<and> p_query e0 = q"
      by (simp add: p1 e0_def)
    then show ?thesis by blast
  next
    case (upd d h)
    define e1 where "e1 = e0\<lparr>p_posts := (case d of JsonArray xs \<Rightarrow> Some (map maps xs) | JsonOther _ \<Rightarrow> None),
                    p_headers := Some h\<rparr>"
    from upd have "posts (send cfg srv maps cur q s) = set_at (posts s) (nat (page q)) e1
        \<and> p_show e1 = (page q \<le> page (query s)) \<and> p_query e1 = q"
      by (simp add: ua e1_def e0_def)
    then show ?thesis by blast
  qed
qed

subsection \<open>The pagination headers\<close>

lemma headers_send:
  "headers (send cfg srv maps cur q s) =
     (case srv (request_url cfg q) of
        NetworkError \<Rightarrow> headers s
      | Response r \<Rightarrow> if ok r then parse_headers (resp_headers r) else headers s)"
  by (simp add: send_def wpQuery_def response_def Let_def
      split: fetch_result.splits option.splits)

lemma headers_queue_step:
  assumes "\<forall>url r. srv url = Response r \<longrightarrow> \<not> ok r"
  shows "headers (queue_step cfg srv maps obj1 off s) = headers s"
proof -
  have "headers (send cfg srv maps cur q s) = headers s" for cur q
    using assms by (simp add: headers_send split: fetch_result.splits)
  then show ?thesis by (simp add: queue_step_def Let_def)
qed

lemma headers_fold_queue_step:
  assumes "\<forall>url r. srv url = Response r \<longrightarrow> \<not> ok r"
  shows "headers (fold (queue_step cfg srv maps obj1) offs s) = headers s"
  using assms by (induction offs arbitrary: s) (simp_all add: headers_queue_step)

text \<open>
  C9. \<^verbatim>\<open>response\<close> stores the parsed headers exactly when the response is ok; the same
  holds for the whole request of one page, and a fetch run in which no response is ok
  leaves the stored headers as they were.
\<close>

theorem headers_only_from_ok:
  "headers (snd (response r s)) = (if ok r then parse_headers (resp_headers r) else headers s)
   \<and> headers (send cfg srv maps cur q s) =
       (case srv (request_url cfg q) of
          NetworkError \<Rightarrow> headers s
        | Response r' \<Rightarrow> if ok r' then parse_headers (resp_headers r') else headers s)
   \<and> ((\<forall>url r'. srv url = Response r' \<longrightarrow> \<not> ok r') \<longrightarrow>
        headers (queue cfg srv maps offs s) = headers s)"
  by (simp add: response_def headers_send queue_def headers_fold_queue_step)

theorem headers_only_from_ok_witness:
  "failing_server [] = Response \<lparr>ok = False, resp_headers = [(''X-WP-TotalPages'', ''9'')],
               body = Some (JsonOther ''rest_invalid_param'')\<rparr>
   \<and> headers (queue defaults failing_server (\<lambda>x. x) [0, 1] (initial :: nat state))
       = \<lparr>pages = Num 0, total = Num 0, link = Str ''rel=\"next\";''\<rparr>"
proof -
  have h: "\<forall>url r'. failing_server url = Response r' \<longrightarrow> \<not> ok r'"
    by (auto simp add: failing_server_def)
  have "headers (queue defaults failing_server (\<lambda>x. x) [0, 1] (initial :: nat state))
        = headers (initial :: nat state)"
    using headers_only_from_ok [where srv = failing_server and cfg = defaults
        and maps = "\<lambda>x. x" and offs = "[0, 1]" and s = "initial :: nat state"] h
    by blast
  then show ?thesis by (simp add: initial_def failing_server_def)
qed

subsection \<open>What a fetch run stores\<close>

lemma stored_by_send:
  assumes "0 \<le> n"
  shows "posts_at (posts (send cfg srv maps cur ((query s)\<lparr>page := n\<rparr>) s)) m = posts_at (posts s) m
       \<or> stored_by s (posts (send cfg srv maps cur ((query s)\<lparr>page := n\<rparr>) s)) m"
proof -
  from posts_send [of "(query s)\<lparr>page := n\<rparr>" cfg srv maps cur s] assms
  obtain e where e: "posts (send cfg srv maps cur ((query s)\<lparr>page := n\<rparr>) s)
                       = set_at (posts s) (nat n) e"
    and sh: "p_show e = (n \<le> page (query s))" and q: "p_query e = (query s)\<lparr>page := n\<rparr>"
    by auto
  show ?thesis
  proof (cases "m = n")
    case True
    then show ?thesis using assms sh q by (simp add: e stored_by_def posts_at_set_at)
  next
    case False
    then show ?thesis using assms by (simp add: e posts_at_set_at)
  qed
qed

lemma stored_by_queue_step:
  "posts_at (posts (queue_step cfg srv maps obj1 off s)) m = posts_at (posts s) m
   \<or> stored_by s (posts (queue_step cfg srv maps obj1 off s)) m"
proof (cases "queue_step cfg srv maps obj1 off s = s")
  case True
  then show ?thesis by simp
next
  case False
  then have pos: "0 \<le> page (query s) + off"
    and "queue_step cfg srv maps obj1 off s
         = send cfg srv maps (page (query s) + off = page (query s))
             ((query s)\<lparr>page := page (query s) + off\<rparr>) s"
    by (auto simp add: queue_step_def Let_def split: if_splits)
  then show ?thesis using stored_by_send [OF pos] by simp
qed

lemma stored_by_query:
  "query s' = query s \<Longrightarrow> stored_by s' ps m = stored_by s ps m"
  by (simp add: stored_by_def split: option.splits)

lemma stored_by_fold:
  "posts_at (posts (fold (queue_step cfg srv maps obj1) offs s)) m = posts_at (posts s) m
   \<or> stored_by s (posts (fold (queue_step cfg srv maps obj1) offs s)) m"
proof (induction offs arbitrary: s)
  case Nil
  show ?case by simp
next
  case (Cons off offs)
  define s1 where "s1 = queue_step cfg srv maps obj1 off s"
  have q1: "query s1 = query s" by (simp add: s1_def)
  from Cons.IH [of s1]
  have "posts_at (posts (fold (queue_step cfg srv maps obj1) offs s1)) m = posts_at (posts s1) m
        \<or> stored_by s (posts (fold (queue_step cfg srv maps obj1) offs s1)) m"
    by (simp add: stored_by_query [OF q1])
  moreover have "posts_at (posts s1) m = posts_at (posts s) m \<or> stored_by s (posts s1) m"
    unfolding s1_def by (rule stored_by_queue_step)
  ultimately show ?case
    by (auto simp add: s1_def stored_by_def)
qed

lemma queue_step_current:
  assumes "1 \<le> page (query s)"
    and "\<not> fresh obj1 (posts_at (posts s) (page (query s)))"
  shows "queue_step cfg srv maps obj1 0 s = send cfg srv maps True (query s) s"
  using assms
  by (auto simp add: queue_step_def Let_def fresh_def split: option.splits)

lemma queue_step_next:
  assumes "1 \<le> page (query s)"
    and "posts_at (posts s) (page (query s) + 1) = None"
    and "less_header (page (query s)) (pages (headers s))"
  shows "queue_step cfg srv maps obj1 1 s
         = send cfg srv maps False ((query s)\<lparr>page := page (query s) + 1\<rparr>) s"
  using assms
  by (simp add: queue_step_def Let_def)

lemma first_run:
  assumes empty: "posts s = []" and one: "page (query s) = 1"
    and r: "srv (request_url cfg (query s)) = Response r" and ok: "ok r"
    and more: "less_header 1 (header_value (map_of (resp_headers r) ''X-WP-TotalPages''))"
  shows "\<exists>e1 e2. posts (wp cfg srv maps s) = [None, Some e1, Some e2]
           \<and> p_show e1 \<and> \<not> p_show e2
           \<and> p_query e1 = query s \<and> p_query e2 = (query s)\<lparr>page := 2\<rparr>"
proof -
  define sA where "sA = send cfg srv maps True (query s) s"
  have stepA: "queue_step cfg srv maps (others (query s)) 0 s = sA"
    unfolding sA_def using empty one
    by (intro queue_step_current) (simp_all add: fresh_def posts_at_def)
  from posts_send [of "query s" cfg srv maps True s] one
  obtain e1 where pA: "posts sA = set_at (posts s) (nat (page (query s))) e1"
    and sh1: "p_show e1" and q1: "p_query e1 = query s"
    by (auto simp add: sA_def)
  have pA': "posts sA = [None, Some e1]"
    using empty one by (simp add: pA set_at_def)
  have qA: "query sA = query s" by (simp add: sA_def)
  have hA: "headers sA = parse_headers (resp_headers r)"
    using r ok by (simp add: sA_def headers_send)
  define sB where "sB = send cfg srv maps False ((query s)\<lparr>page := 2\<rparr>) sA"
  have stepB: "queue_step cfg srv maps (others (query s)) 1 sA = sB"
  proof -
    have "queue_step cfg srv maps (others (query s)) 1 sA
          = send cfg srv maps False ((query sA)\<lparr>page := page (query sA) + 1\<rparr>) sA"
      using one more
      by (intro queue_step_next) (simp_all add: qA pA' posts_at_def hA parse_headers_def)
    then show ?thesis using one by (simp add: sB_def qA)
  qed
  from posts_send [of "(query s)\<lparr>page := 2\<rparr>" cfg srv maps False sA]
  obtain e2 where pB: "posts sB = set_at (posts sA) 2 e2"
    and sh2: "\<not> p_show e2" and q2: "p_query e2 = (query s)\<lparr>page := 2\<rparr>"
    using one by (auto simp add: sB_def qA)
  have pB': "posts sB = [None, Some e1, Some e2]"
    by (simp add: pB pA' set_at_def)
  have "wp cfg srv maps s = sB"
    by (simp add: wp_def queue_def stepA stepB)
  then show ?thesis using pB' sh1 sh2 q1 q2 by blast
qed

text \<open>
  C8. After a fetch run every entry of the store is the one from before or is stored by
  the run: visible exactly when its page is at most the current page, with the target
  query (the current query at that page) as snapshot. On a run with the offsets 0 and 1
  from page 1 and an empty store, when the response for page 1 is ok and announces more
  than one page, the store holds page 1 visible and page 2 not visible.
\<close>

theorem queue_stores:
  "(posts_at (posts (queue cfg srv maps offs s)) m = posts_at (posts s) m
      \<or> stored_by s (posts (queue cfg srv maps offs s)) m)
   \<and> (posts s = [] \<and> page (query s) = 1
        \<and> srv (request_url cfg (query s)) = Response r \<and> ok r
        \<and> less_header 1 (header_value (map_of (resp_headers r) ''X-WP-TotalPages'')) \<longrightarrow>
       (\<exists>e1 e2. posts (wp cfg srv maps s) = [None, Some e1, Some e2]
           \<and> p_show e1 \<and> \<not> p_show e2
           \<and> p_query e1 = query s \<and> p_query e2 = (query s)\<lparr>page := 2\<rparr>))"
  using stored_by_fold [of cfg srv maps "others (query s)" offs s m] first_run [of s srv cfg r maps]
  by (simp add: queue_def)

theorem queue_stores_witness:
  "less_header 1 (header_value (Some ''3''))
   \<and> (\<exists>e1 e2. posts (wp defaults (paged_server ''12'' ''3'') (\<lambda>x. x) initial)
                 = [None, Some e1, Some e2]
           \<and> p_show e1 \<and> \<not> p_show e2
           \<and> p_query e1 = \<lparr>page = 1, others = [(''per_page'', Scalar (Num 5))]\<rparr>
           \<and> p_query e2 = \<lparr>page = 2, others = [(''per_page'', Scalar (Num 5))]\<rparr>)"
proof -
  have more: "less_header 1 (header_value (Some ''3''))"
    by code_simp
  have h: "posts (initial :: nat state) = [] \<and> page (query (initial :: nat state)) = 1
        \<and> paged_server ''12'' ''3'' (request_url defaults (query (initial :: nat state)))
           = Response \<lparr>ok = True,
               resp_headers = [(''X-WP-Total'', ''12''), (''X-WP-TotalPages'', ''3'')],
               body = Some (JsonArray [7, 8])\<rparr>
        \<and> ok \<lparr>ok = True,
               resp_headers = [(''X-WP-Total'', ''12''), (''X-WP-TotalPages'', ''3'')],
               body = Some (JsonArray [7, 8::nat])\<rparr>
        \<and> less_header 1 (header_value (map_of (resp_headers \<lparr>ok = True,
               resp_headers = [(''X-WP-Total'', ''12''), (''X-WP-TotalPages'', ''3'')],
               body = Some (JsonArray [7, 8::nat])\<rparr>) ''X-WP-TotalPages''))"
    using more by (simp add: initial_def paged_server_def)
  from queue_stores [where s = "initial :: nat state" and cfg = defaults
      and srv = "paged_server ''12'' ''3''" and maps = "\<lambda>x. x", THEN conjunct2, rule_format, OF h]
  have "\<exists>e1 e2. posts (wp defaults (paged_server ''12'' ''3'') (\<lambda>x. x) initial)
                 = [None, Some e1, Some e2]
           \<and> p_show e1 \<and> \<not> p_show e2
           \<and> p_query e1 = query (initial :: nat state)
           \<and> p_query e2 = (query (initial :: nat state))\<lparr>page := 2\<rparr>" .
  then show ?thesis using more by (simp add: initial_def)
qed

subsection \<open>A failed request for the current page\<close>

lemma send_failed:
  fixes s :: "'i state"
  assumes pos: "0 \<le> page q"
    and r: "srv (request_url cfg q) = Response r" and nok: "\<not> ok r"
  shows "(body r = Some (JsonOther t) \<longrightarrow>
            posts_at (posts (send cfg srv maps True q s)) (page q)
              = Some \<lparr>p_posts = None, p_query = q, p_show = (page q \<le> page (query s)),
                      p_headers = Some (headers s)\<rparr>
          \<and> errors (send cfg srv maps True q s) = errors s @ [BadData t q]
          \<and> address (send cfg srv maps True q s) = address s @ [history_state cfg q]
          \<and> init (send cfg srv maps True q s))
       \<and> (body r = None \<longrightarrow>
            posts_at (posts (send cfg srv maps True q s)) (page q)
              = Some \<lparr>p_posts = Some [], p_query = q, p_show = (page q \<le> page (query s)),
                      p_headers = None\<rparr>
          \<and> errors (send cfg srv maps True q s) = errors s @ [Rejection]
          \<and> address (send cfg srv maps True q s) = address s
          \<and> init (send cfg srv maps True q s) = init s)
       \<and> (body r = Some (JsonArray xs) \<longrightarrow>
            posts_at (posts (send cfg srv maps True q s)) (page q)
              = Some \<lparr>p_posts = Some (map maps xs), p_query = q, p_show = (page q \<le> page (query s)),
                      p_headers = Some (headers s)\<rparr>
          \<and> errors (send cfg srv maps True q s) = errors s
          \<and> address (send cfg srv maps True q s) = address s @ [history_state cfg q]
          \<and> init (send cfg srv maps True q s))"
proof -
  define e0 :: "'i page_entry" where
    "e0 = \<lparr>p_posts = Some [], p_query = q, p_show = (page q \<le> page (query s)), p_headers = None\<rparr>"
  define s1 where "s1 = snd (wpQuery cfg q s)"
  have w: "wpQuery cfg q s = (request_url cfg q, s1)"
    by (simp add: wpQuery_def s1_def Let_def)
  have p1: "posts s1 = set_at (posts s) (nat (page q)) e0"
    by (simp add: s1_def wpQuery_def e0_def Let_def)
  have at1: "posts_at (posts s1) (page q) = Some e0"
    using pos by (simp add: p1 posts_at_set_at)
  have rest1: "errors s1 = errors s" "address s1 = address s" "init s1 = init s"
    "headers s1 = headers s"
    by (simp_all add: s1_def wpQuery_def Let_def)
  have resp: "response r s1 = (body r, s1)"
    using nok by (simp add: response_def)
  have none: ?thesis if "body r = None"
    using that r resp at1 rest1
    by (simp add: send_def w error_def e0_def)
  have some: "send cfg srv maps True q s = process maps d q (headers s) (replaceState cfg q s1)"
    if "body r = Some d" for d
    using that r resp rest1 by (simp add: send_def w Let_def)
  have at3: "posts_at (posts (replaceState cfg q s1)) (page q) = Some e0"
    by (simp add: at1)
  have upd: "posts_at (update_at (posts s1) (page q) f) (page q) = Some (f e0)" for f
    by (simp add: posts_at_update_at at1)
  have other: ?thesis if "body r = Some (JsonOther t')" for t'
    using that at3 rest1 upd
    by (simp add: some [OF that] process_def Let_def error_def replaceState_def e0_def)
  have arr: ?thesis if "body r = Some (JsonArray ys)" for ys
    using that at3 rest1 upd
    by (simp add: some [OF that] process_def Let_def error_def replaceState_def e0_def)
  show ?thesis
  proof (cases "body r")
    case None
    then show ?thesis by (rule none)
  next
    case (Some d)
    then show ?thesis using other arr by (cases d) simp_all
  qed
qed

text \<open>
  C2, as the code has it. When the request for the current page gets a response that
  is not ok, the stored headers stay. If the body is JSON but no array, the entry has
  no items (\<^verbatim>\<open>false\<close>), the error handler is called once with the payload and the query,
  and the address bar is replaced with the string of that query, as on success. If the
  body is not JSON, the entry keeps the empty array, the error handler is called once
  with the rejection, and the address bar is not touched. An array body is stored as
  on success.
\<close>

theorem failed_current_request:
  fixes s :: "'i state"
  assumes page: "1 \<le> page (query s)"
    and stale: "\<not> fresh (others (query s)) (posts_at (posts s) (page (query s)))"
    and r: "srv (request_url cfg (query s)) = Response r" and nok: "\<not> ok r"
  shows "headers (queue cfg srv maps [0] s) = headers s
       \<and> (body r = Some (JsonOther t) \<longrightarrow>
            posts_at (posts (queue cfg srv maps [0] s)) (page (query s))
              = Some \<lparr>p_posts = None, p_query = query s, p_show = True,
                      p_headers = Some (headers s)\<rparr>
          \<and> errors (queue cfg srv maps [0] s) = errors s @ [BadData t (query s)]
          \<and> address (queue cfg srv maps [0] s) = address s @ [history_state cfg (query s)])
       \<and> (body r = None \<longrightarrow>
            posts_at (posts (queue cfg srv maps [0] s)) (page (query s))
              = Some \<lparr>p_posts = Some [], p_query = query s, p_show = True, p_headers = None\<rparr>
          \<and> errors (queue cfg srv maps [0] s) = errors s @ [Rejection]
          \<and> address (queue cfg srv maps [0] s) = address s)
       \<and> (body r = Some (JsonArray xs) \<longrightarrow>
            posts_at (posts (queue cfg srv maps [0] s)) (page (query s))
              = Some \<lparr>p_posts = Some (map maps xs), p_query = query s, p_show = True,
                      p_headers = Some (headers s)\<rparr>
          \<and> errors (queue cfg srv maps [0] s) = errors s
          \<and> address (queue cfg srv maps [0] s) = address s @ [history_state cfg (query s)])"
proof -
  have q: "queue cfg srv maps [0] s = send cfg srv maps True (query s) s"
    using page stale by (simp add: queue_def queue_step_current)
  have pos: "0 \<le> page (query s)" using page by simp
  have h: "headers (send cfg srv maps True (query s) s) = headers s"
    using r nok by (simp add: headers_send)
  from send_failed [where q = "query s" and srv = srv and cfg = cfg and r = r and t = t
      and maps = maps and s = s and xs = xs] pos r nok h
  show ?thesis
    by (simp add: q)
qed

theorem failed_current_request_witness:
  "address (queue defaults failing_server (\<lambda>x. x) [0] red_only) = [''?colors[]=1'']
   \<and> errors (queue defaults failing_server (\<lambda>x. x) [0] red_only)
       = [BadData ''rest_invalid_param''
            \<lparr>page = 1, others = [(''per_page'', Scalar (Num 5)), (''colors'', Arr [Num 1])]\<rparr>]
   \<and> address (queue defaults broken_server (\<lambda>x. x) [0] red_only) = []
   \<and> errors (queue defaults broken_server (\<lambda>x. x) [0] red_only) = [Rejection]"
proof -
  have page: "1 \<le> page (query red_only)" by code_simp
  have stale: "\<not> fresh (others (query red_only)) (posts_at (posts red_only) (page (query red_only)))"
    by code_simp
  have q: "query red_only
           = \<lparr>page = 1, others = [(''per_page'', Scalar (Num 5)), (''colors'', Arr [Num 1])]\<rparr>"
    by code_simp
  have a: "address red_only = []" and e: "errors red_only = []" by code_simp+
  have hs: "history_state defaults
              \<lparr>page = 1, others = [(''per_page'', Scalar (Num 5)), (''colors'', Arr [Num 1])]\<rparr>
            = ''?colors[]=1''"
    by code_simp
  have r1: "failing_server (request_url defaults (query red_only))
            = Response \<lparr>ok = False, resp_headers = [(''X-WP-TotalPages'', ''9'')],
               body = Some (JsonOther ''rest_invalid_param'')\<rparr>"
    by (simp add: failing_server_def)
  have r2: "broken_server (request_url defaults (query red_only))
            = Response \<lparr>ok = False, resp_headers = [], body = None\<rparr>"
    by (simp add: broken_server_def)
  from failed_current_request [where s = red_only and srv = failing_server and cfg = defaults
      and maps = "\<lambda>x. x" and t = "''rest_invalid_param''"
      and r = "\<lparr>ok = False, resp_headers = [(''X-WP-TotalPages'', ''9'')],
               body = Some (JsonOther ''rest_invalid_param'')\<rparr>"] page stale r1
  have "address (queue defaults failing_server (\<lambda>x. x) [0] red_only)
          = address red_only @ [history_state defaults (query red_only)]
      \<and> errors (queue defaults failing_server (\<lambda>x. x) [0] red_only)
          = errors red_only @ [BadData ''rest_invalid_param'' (query red_only)]"
    by simp
  moreover
  from failed_current_request [where s = red_only and srv = broken_server and cfg = defaults
      and maps = "\<lambda>x. x" and r = "\<lparr>ok = False, resp_headers = [], body = None\<rparr>"]
    page stale r2
  have "address (queue defaults broken_server (\<lambda>x. x) [0] red_only) = address red_only
      \<and> errors (queue defaults broken_server (\<lambda>x. x) [0] red_only) = errors red_only @ [Rejection]"
    by simp
  ultimately show ?thesis by (simp add: a e hs q)
qed

text \<open>
  The claim C2 as stated fails: the current-page request after a click on the second
  filter is answered with a status that is not ok and a JSON error object; the address
  bar is replaced with \<^verbatim>\<open>?colors[]=2\<close>, and the items of the entry are \<^verbatim>\<open>false\<close>.
\<close>

theorem failed_request_replaces_address:
  "failing_server (request_url defaults (query (snd (click (OnFilter 0 1) with_colors))))
     = Response \<lparr>ok = False, resp_headers = [(''X-WP-TotalPages'', ''9'')],
               body = Some (JsonOther ''rest_invalid_param'')\<rparr>
   \<and> address (snd (click (OnFilter 0 1) with_colors)) = []
   \<and> address (wp defaults failing_server (\<lambda>x. x) (snd (click (OnFilter 0 1) with_colors)))
       = [''?colors[]=2'']
   \<and> map_option p_posts
        (posts_at (posts (wp defaults failing_server (\<lambda>x. x) (snd (click (OnFilter 0 1) with_colors)))) 1)
       = Some None"
  by code_simp

end
